theory Spec2Isabelle
  imports Complex_Main
begin

section \<open>Linear-programming inverse reinforcement learning (linear_irl.py)\<close>

text \<open>
  A shallow embedding of \<^verbatim>\<open>src/linear_irl.py\<close>. Python floats are idealised as the
  real numbers; the one place where the source can leave the reals, the division of
  \<^verbatim>\<open>normalise\<close>, has its own result type. Exceptions are values of type \<open>error\<close>;
  a function that can raise returns \<open>error + 'a\<close> with \<open>Inl\<close> for the exception.
\<close>

subsection \<open>Exceptions\<close>

text \<open>
  \<open>IndexError\<close>, \<open>ValueError\<close>, \<open>TypeError\<close> and \<open>ZeroDivisionError\<close> are the Python
  exceptions of indexing, of \<^verbatim>\<open>np.max\<close>/\<^verbatim>\<open>np.min\<close>/\<^verbatim>\<open>np.argmax\<close> on an empty
  array, of subscripting \<^verbatim>\<open>None\<close> and of dividing a cvxopt matrix by zero;
  \<open>LinAlgError\<close> is what \<^verbatim>\<open>np.linalg.inv\<close> raises on a singular matrix.
  \<open>ConfigurationError\<close>, \<open>IRLInfeasibleError\<close> and \<open>DegenerateRewardError\<close> are names
  of the specification's error taxonomy: the source has no \<^verbatim>\<open>raise\<close> statement
  and no definition below constructs them.
\<close>

datatype error =
    IndexError | ValueError | TypeError | ZeroDivisionError | LinAlgError
  | ConfigurationError | IRLInfeasibleError | DegenerateRewardError

subsection \<open>numpy reductions\<close>

text \<open>\<^verbatim>\<open>np.min\<close>, \<^verbatim>\<open>np.max\<close>: a \<^verbatim>\<open>ValueError\<close> on an empty array.\<close>

fun np_min :: "real list \<Rightarrow> error + real" where
  "np_min [] = Inl ValueError"
| "np_min (x # xs) = Inr (fold min xs x)"

fun np_max :: "real list \<Rightarrow> error + real" where
  "np_max [] = Inl ValueError"
| "np_max (x # xs) = Inr (fold max xs x)"

text \<open>
  \<^verbatim>\<open>np.argmax\<close>: the index of the first occurrence of the maximum. \<open>argmax_from\<close>
  scans with the best index and value seen so far; only a strictly larger entry
  replaces them.
\<close>

fun argmax_from :: "nat \<Rightarrow> real \<Rightarrow> nat \<Rightarrow> real list \<Rightarrow> nat" where
  "argmax_from best bv i [] = best"
| "argmax_from best bv i (x # xs) =
     (if bv < x then argmax_from i x (Suc i) xs else argmax_from best bv (Suc i) xs)"

fun np_argmax :: "real list \<Rightarrow> error + nat" where
  "np_argmax [] = Inl ValueError"
| "np_argmax (x # xs) = Inr (argmax_from 0 x 1 xs)"

subsection \<open>The reward normaliser\<close>

text \<open>
  \<^verbatim>\<open>
  def normalise(vals):
      min_val = np.min(vals)
      max_val = np.max(vals)
      return (vals - min_val) / (max_val - min_val)
  \<close>
  The division is the only operation of the source whose result need not be a number.
  What it does at a zero divisor depends on the run-time type of \<^verbatim>\<open>vals\<close>: on a numpy
  array it is IEEE division (a warning, and \<open>NaN\<close> or an infinity as the entry); on a
  cvxopt matrix, which is what \<^verbatim>\<open>linear_irl\<close> passes (\<^verbatim>\<open>sol['x'][:n]\<close>), division by
  a zero scalar raises \<^verbatim>\<open>ZeroDivisionError\<close>.
\<close>

datatype fval = Finite real | NaN | PosInf | NegInf

datatype array_type = Ndarray | CvxoptMatrix

definition ieee_div :: "real \<Rightarrow> real \<Rightarrow> fval" where
  "ieee_div x d =
     (if d \<noteq> 0 then Finite (x / d)
      else if x = 0 then NaN else if 0 < x then PosInf else NegInf)"

definition true_divide :: "array_type \<Rightarrow> real list \<Rightarrow> real \<Rightarrow> error + fval list" where
  "true_divide t xs d =
     (case t of
        Ndarray \<Rightarrow> Inr (map (\<lambda>x. ieee_div x d) xs)
      | CvxoptMatrix \<Rightarrow>
          if d = 0 then Inl ZeroDivisionError else Inr (map (\<lambda>x. Finite (x / d)) xs))"

definition normalise :: "array_type \<Rightarrow> real list \<Rightarrow> error + fval list" where
  "normalise t vals =
     (case np_min vals of
        Inl e \<Rightarrow> Inl e
      | Inr min_val \<Rightarrow>
          (case np_max vals of
             Inl e \<Rightarrow> Inl e
           | Inr max_val \<Rightarrow> true_divide t (map (\<lambda>v. v - min_val) vals) (max_val - min_val)))"

text \<open>The product \<^verbatim>\<open>normalise(rewards) * r_max\<close> of \<^verbatim>\<open>linear_irl\<close>, entry by entry.\<close>

fun fmul :: "fval \<Rightarrow> real \<Rightarrow> fval" where
  "fmul (Finite x) r = Finite (x * r)"
| "fmul NaN r = NaN"
| "fmul PosInf r = (if 0 < r then PosInf else if r < 0 then NegInf else NaN)"
| "fmul NegInf r = (if 0 < r then NegInf else if r < 0 then PosInf else NaN)"

definition normalise_times :: "array_type \<Rightarrow> real list \<Rightarrow> real \<Rightarrow> error + fval list" where
  "normalise_times t vals r_max =
     (case normalise t vals of
        Inl e \<Rightarrow> Inl e
      | Inr ys \<Rightarrow> Inr (map (\<lambda>y. fmul y r_max) ys))"

subsection \<open>Loops and array assignment\<close>

text \<open>
  \<^verbatim>\<open>for i in range(n): body\<close> threads the loop's variables through the body for
  \<open>i = 0, \<dots>, n - 1\<close> and stops at the first exception: \<open>for_each [0..<n] body\<close>.
\<close>

fun for_each :: "nat list \<Rightarrow> (nat \<Rightarrow> 's \<Rightarrow> error + 's) \<Rightarrow> 's \<Rightarrow> error + 's" where
  "for_each [] body s = Inr s"
| "for_each (i # is) body s =
     (case body i s of Inl e \<Rightarrow> Inl e | Inr s' \<Rightarrow> for_each is body s')"

text \<open>
  Item assignment on numpy arrays, with the \<^verbatim>\<open>IndexError\<close> of an index out of
  bounds: \<^verbatim>\<open>v[i] = x\<close>, \<^verbatim>\<open>M[r, c] = x\<close>, and the slice assignment
  \<^verbatim>\<open>M[r, :n] = xs\<close> for a vector \<open>xs\<close> of length \<open>n\<close> (the row keeps its length; a
  vector of another length is a \<^verbatim>\<open>ValueError\<close>).
\<close>

definition set_item :: "real list \<Rightarrow> nat \<Rightarrow> real \<Rightarrow> error + real list" where
  "set_item v i x = (if i < length v then Inr (v[i := x]) else Inl IndexError)"

definition set_item2 :: "real list list \<Rightarrow> nat \<Rightarrow> nat \<Rightarrow> real \<Rightarrow> error + real list list" where
  "set_item2 M r c x =
     (if r < length M \<and> c < length (M ! r) then Inr (M[r := (M ! r)[c := x]])
      else Inl IndexError)"

definition set_row_prefix :: "real list list \<Rightarrow> nat \<Rightarrow> nat \<Rightarrow> real list \<Rightarrow> error + real list list" where
  "set_row_prefix M r n xs =
     (if \<not> r < length M then Inl IndexError
      else if length xs \<noteq> min n (length (M ! r)) then Inl ValueError
      else Inr (M[r := xs @ drop n (M ! r)]))"

subsection \<open>The environment\<close>

text \<open>
  The environment collaborator (\<^verbatim>\<open>GridworldEnv\<close>, \<^verbatim>\<open>CliffWalkingEnv\<close>) is not part of
  the source; the program reads three attributes of it: \<^verbatim>\<open>env.nS\<close>, \<^verbatim>\<open>env.nA\<close>
  (also \<^verbatim>\<open>env.observation_space.n\<close> and \<^verbatim>\<open>env.action_space.n\<close>) and the table
  \<^verbatim>\<open>env.P[s][a]\<close>, a list of tuples \<^verbatim>\<open>(prob, next_state, reward, done)\<close>. States and
  actions are natural numbers.
\<close>

type_synonym transition = "real \<times> nat \<times> real \<times> bool"

record env =
  nS :: nat
  nA :: nat
  P :: "nat \<Rightarrow> nat \<Rightarrow> transition list"

subsection \<open>Value iteration\<close>

text \<open>
  \<^verbatim>\<open>
  for prob, next_state, reward, done in env.P[state][a]:
      A[a] += prob * (reward + discount_factor * V[next_state])
  \<close>
  with \<open>acc\<close> the running value of \<^verbatim>\<open>A[a]\<close>.
\<close>

fun action_value :: "real \<Rightarrow> real list \<Rightarrow> transition list \<Rightarrow> real \<Rightarrow> error + real" where
  "action_value discount_factor V [] acc = Inr acc"
| "action_value discount_factor V ((prob, next_state, reward, dn) # ts) acc =
     (if next_state < length V
      then action_value discount_factor V ts
             (acc + prob * (reward + discount_factor * V ! next_state))
      else Inl IndexError)"

fun collect :: "(error + 'a) list \<Rightarrow> error + 'a list" where
  "collect [] = Inr []"
| "collect (x # xs) =
     (case x of
        Inl e \<Rightarrow> Inl e
      | Inr v \<Rightarrow> (case collect xs of Inl e \<Rightarrow> Inl e | Inr vs \<Rightarrow> Inr (v # vs)))"

definition one_step_lookahead :: "env \<Rightarrow> real \<Rightarrow> nat \<Rightarrow> real list \<Rightarrow> error + real list" where
  "one_step_lookahead env discount_factor state V =
     collect (map (\<lambda>a. action_value discount_factor V (P env state a) 0) [0..<nA env])"

text \<open>
  One pass of \<^verbatim>\<open>for s in range(env.nS)\<close> inside the \<^verbatim>\<open>while\<close> loop. The loop's
  variables are \<open>(V, delta)\<close>; \<open>V\<close> is updated in place, so later states read the new
  values of earlier ones.
\<close>

definition update_state :: "env \<Rightarrow> real \<Rightarrow> nat \<Rightarrow> real list \<times> real \<Rightarrow> error + real list \<times> real" where
  "update_state env discount_factor s = (\<lambda>(V, delta).
     case one_step_lookahead env discount_factor s V of
       Inl e \<Rightarrow> Inl e
     | Inr A \<Rightarrow>
         (case np_max A of
            Inl e \<Rightarrow> Inl e
          | Inr best_action_value \<Rightarrow>
              if s < length V
              then Inr (V[s := best_action_value], max delta \<bar>best_action_value - V ! s\<bar>)
              else Inl IndexError))"

definition sweep :: "env \<Rightarrow> real \<Rightarrow> real list \<Rightarrow> error + real list \<times> real" where
  "sweep env discount_factor V =
     for_each [0..<nS env] (update_state env discount_factor) (V, 0)"

text \<open>
  The \<^verbatim>\<open>while True\<close> loop. It may not terminate: the result is \<open>None\<close> then. At the
  \<^verbatim>\<open>break\<close> the loop's variables \<open>(V, delta)\<close> are returned.
\<close>

partial_function (option) vi_loop ::
  "env \<Rightarrow> real \<Rightarrow> real \<Rightarrow> real list \<Rightarrow> (error + real list \<times> real) option" where
  "vi_loop env theta discount_factor V =
     (case sweep env discount_factor V of
        Inl e \<Rightarrow> Some (Inl e)
      | Inr (V', delta) \<Rightarrow>
          if delta < theta then Some (Inr (V', delta))
          else vi_loop env theta discount_factor V')"

text \<open>The deterministic policy: \<^verbatim>\<open>policy[s, best_action] = 1.0\<close> for every state.\<close>

definition choose_action :: "env \<Rightarrow> real \<Rightarrow> real list \<Rightarrow> nat \<Rightarrow> real list list \<Rightarrow> error + real list list" where
  "choose_action env discount_factor V s policy =
     (case one_step_lookahead env discount_factor s V of
        Inl e \<Rightarrow> Inl e
      | Inr A \<Rightarrow>
          (case np_argmax A of
             Inl e \<Rightarrow> Inl e
           | Inr best_action \<Rightarrow> set_item2 policy s best_action 1))"

definition greedy_policy :: "env \<Rightarrow> real \<Rightarrow> real list \<Rightarrow> error + real list list" where
  "greedy_policy env discount_factor V =
     for_each [0..<nS env] (choose_action env discount_factor V)
       (replicate (nS env) (replicate (nA env) 0))"

definition value_iteration ::
  "env \<Rightarrow> real \<Rightarrow> real \<Rightarrow> (error + real list list \<times> real list) option" where
  "value_iteration env theta discount_factor =
     (case vi_loop env theta discount_factor (replicate (nS env) 0) of
        None \<Rightarrow> None
      | Some (Inl e) \<Rightarrow> Some (Inl e)
      | Some (Inr (V, delta)) \<Rightarrow>
          (case greedy_policy env discount_factor V of
             Inl e \<Rightarrow> Some (Inl e)
           | Inr policy \<Rightarrow> Some (Inr (policy, V))))"


subsection \<open>The linear program of \<^verbatim>\<open>linear_irl\<close>\<close>

text \<open>
  The transition tensor \<^verbatim>\<open>trans_probs\<close> has shape \<open>(nS, nS, nA)\<close>: its first two
  dimensions are equal (that is how \<^verbatim>\<open>irl\<close> allocates it), so the model keeps
  \<^verbatim>\<open>shape[0]\<close>, \<^verbatim>\<open>shape[2]\<close> and the entries \<^verbatim>\<open>trans_probs[s, s', a]\<close>. Two library
  functions are parameters of the model:
  \<^item> \<open>linalg_inv n M\<close> is \<^verbatim>\<open>np.linalg.inv\<close> on the \<open>n \<times> n\<close> matrix with entries \<open>M r c\<close>; it
    returns the inverse or raises (\<^verbatim>\<open>LinAlgError\<close> on a singular matrix);
  \<^item> \<open>lp_solver c A b\<close> is the entry \<^verbatim>\<open>'x'\<close> of the dictionary returned by
    \<^verbatim>\<open>solvers.lp(matrix(c), matrix(A), matrix(b))\<close>: a vector, or \<^verbatim>\<open>None\<close> when the
    solver reports the problem infeasible (or unbounded).
\<close>

record tensor =
  shape0 :: nat
  shape2 :: nat
  entry :: "nat \<Rightarrow> nat \<Rightarrow> nat \<Rightarrow> real"

type_synonym matrix_inverse = "nat \<Rightarrow> (nat \<Rightarrow> nat \<Rightarrow> real) \<Rightarrow> error + (nat \<Rightarrow> nat \<Rightarrow> real)"

type_synonym lp_solver = "real list \<Rightarrow> real list list \<Rightarrow> real list \<Rightarrow> real list option"

text \<open>\<^verbatim>\<open>np.dot(v, M)\<close> for a vector of length \<open>n\<close> and an \<open>n \<times> n\<close> matrix.\<close>

definition np_dot :: "nat \<Rightarrow> (nat \<Rightarrow> real) \<Rightarrow> (nat \<Rightarrow> nat \<Rightarrow> real) \<Rightarrow> real list" where
  "np_dot n v M = map (\<lambda>j. sum_list (map (\<lambda>k. v k * M k j) [0..<n])) [0..<n]"

text \<open>
  The coefficients written into the reward block of a policy constraint:
  \<^verbatim>\<open>-np.dot(trans_probs[i, :, a_opt] - trans_probs[i, :, a], tmp_inv)\<close>.
\<close>

definition constraint_coeffs ::
  "tensor \<Rightarrow> (nat \<Rightarrow> nat \<Rightarrow> real) \<Rightarrow> nat \<Rightarrow> nat \<Rightarrow> nat \<Rightarrow> real list" where
  "constraint_coeffs trans_probs tmp_inv i a_opt a =
     map uminus
       (np_dot (shape0 trans_probs)
          (\<lambda>k. entry trans_probs i k a_opt - entry trans_probs i k a) tmp_inv)"

text \<open>
  The body of \<^verbatim>\<open>for a in range(number_of_actions)\<close>; the loop's variables are the
  matrix \<open>A\<close> and the counter \<open>cnt\<close>.
\<close>

definition policy_constraint_rows ::
  "tensor \<Rightarrow> (nat \<Rightarrow> nat \<Rightarrow> real) \<Rightarrow> nat \<Rightarrow> nat \<Rightarrow> nat
     \<Rightarrow> real list list \<times> nat \<Rightarrow> error + real list list \<times> nat" where
  "policy_constraint_rows trans_probs tmp_inv i a_opt a = (\<lambda>(A, cnt).
     let number_of_states = shape0 trans_probs;
         number_of_actions = shape2 trans_probs
     in if a \<noteq> a_opt then
          (case set_row_prefix A (i * (number_of_actions - 1) + cnt) number_of_states
                  (constraint_coeffs trans_probs tmp_inv i a_opt a) of
             Inl e \<Rightarrow> Inl e
           | Inr A1 \<Rightarrow>
          (case set_row_prefix A1
                  (number_of_states * (number_of_actions - 1) + i * (number_of_actions - 1) + cnt)
                  number_of_states (constraint_coeffs trans_probs tmp_inv i a_opt a) of
             Inl e \<Rightarrow> Inl e
           | Inr A2 \<Rightarrow>
          (case set_item2 A2
                  (number_of_states * (number_of_actions - 1) + i * (number_of_actions - 1) + cnt)
                  (number_of_states + i) 1 of
             Inl e \<Rightarrow> Inl e
           | Inr A3 \<Rightarrow> Inr (A3, cnt + 1))))
        else Inr (A, cnt))"

text \<open>
  The value of \<open>cnt\<close> when the loop over the actions reaches the action \<open>a \<noteq> a_opt\<close>: the
  number of actions before \<open>a\<close> other than \<open>a_opt\<close>. (A notion of the proofs.)
\<close>

definition skip_index :: "nat \<Rightarrow> nat \<Rightarrow> nat" where
  "skip_index a_opt a = (if a < a_opt then a else a - 1)"

text \<open>
  The body of the first \<^verbatim>\<open>for i in range(number_of_states)\<close>. Reading
  \<^verbatim>\<open>trans_probs[:, :, a_opt]\<close> with \<open>a_opt\<close> outside the third dimension is an
  \<^verbatim>\<open>IndexError\<close>. The second component of the loop's state counts the calls of
  \<^verbatim>\<open>np.linalg.inv\<close>; it is not a variable of the source.
\<close>

definition policy_constraints ::
  "matrix_inverse \<Rightarrow> tensor \<Rightarrow> real list list \<Rightarrow> real \<Rightarrow> nat
     \<Rightarrow> real list list \<times> nat \<Rightarrow> error + real list list \<times> nat" where
  "policy_constraints linalg_inv trans_probs policy gamma i = (\<lambda>(A, inv_calls).
     if \<not> i < length policy then Inl IndexError
     else
       (case np_argmax (policy ! i) of
          Inl e \<Rightarrow> Inl e
        | Inr a_opt \<Rightarrow>
            if \<not> a_opt < shape2 trans_probs then Inl IndexError
            else
              (case linalg_inv (shape0 trans_probs)
                      (\<lambda>r c. (if r = c then 1 else 0) - gamma * entry trans_probs r c a_opt) of
                 Inl e \<Rightarrow> Inl e
               | Inr tmp_inv \<Rightarrow>
                   (case for_each [0..<shape2 trans_probs]
                           (policy_constraint_rows trans_probs tmp_inv i a_opt) (A, 0) of
                      Inl e \<Rightarrow> Inl e
                    | Inr (A', cnt) \<Rightarrow> Inr (A', inv_calls + 1)))))"

text \<open>The bodies of the four loops over the bound and slack rows; \<open>base\<close> is
  \<^verbatim>\<open>2 * number_of_states * (number_of_actions - 1)\<close>.\<close>

definition upper_bound_row :: "nat \<Rightarrow> nat \<Rightarrow> real \<Rightarrow> nat
     \<Rightarrow> real list list \<times> real list \<Rightarrow> error + real list list \<times> real list" where
  "upper_bound_row base number_of_states r_max i = (\<lambda>(A, b).
     case set_item2 A (base + i) i 1 of
       Inl e \<Rightarrow> Inl e
     | Inr A' \<Rightarrow>
         (case set_item b (base + i) r_max of
            Inl e \<Rightarrow> Inl e
          | Inr b' \<Rightarrow> Inr (A', b')))"

definition lower_bound_row :: "nat \<Rightarrow> nat \<Rightarrow> nat
     \<Rightarrow> real list list \<times> real list \<Rightarrow> error + real list list \<times> real list" where
  "lower_bound_row base number_of_states i = (\<lambda>(A, b).
     case set_item2 A (base + number_of_states + i) i (- 1) of
       Inl e \<Rightarrow> Inl e
     | Inr A' \<Rightarrow>
         (case set_item b (base + number_of_states + i) 0 of
            Inl e \<Rightarrow> Inl e
          | Inr b' \<Rightarrow> Inr (A', b')))"

definition slack_row_first :: "nat \<Rightarrow> nat \<Rightarrow> nat \<Rightarrow> real list list \<Rightarrow> error + real list list" where
  "slack_row_first base number_of_states i A =
     (case set_item2 A (base + 2 * number_of_states + i) i 1 of
        Inl e \<Rightarrow> Inl e
      | Inr A' \<Rightarrow> set_item2 A' (base + 2 * number_of_states + i) (2 * number_of_states + i) (- 1))"

definition slack_row_second :: "nat \<Rightarrow> nat \<Rightarrow> nat \<Rightarrow> real list list \<Rightarrow> error + real list list" where
  "slack_row_second base number_of_states i A =
     (case set_item2 A (base + 3 * number_of_states + i) i 1 of
        Inl e \<Rightarrow> Inl e
      | Inr A' \<Rightarrow> set_item2 A' (base + 3 * number_of_states + i) (2 * number_of_states + i) (- 1))"

text \<open>
  Slice assignment of a scalar, \<^verbatim>\<open>v[lo:hi] = x\<close>; it never raises. The body of the last
  loop is \<^verbatim>\<open>c[n:2 * n] = -1; c[2 * n:] = l1\<close>.
\<close>

definition set_slice :: "real list \<Rightarrow> nat \<Rightarrow> nat \<Rightarrow> real \<Rightarrow> real list" where
  "set_slice v lo hi x = map (\<lambda>j. if lo \<le> j \<and> j < hi then x else v ! j) [0..<length v]"

definition objective :: "nat \<Rightarrow> real \<Rightarrow> nat \<Rightarrow> real list \<Rightarrow> error + real list" where
  "objective number_of_states l1 i c =
     Inr (set_slice (set_slice c number_of_states (2 * number_of_states) (- 1))
            (2 * number_of_states) (length c) l1)"

text \<open>
  The formulation part of \<^verbatim>\<open>linear_irl\<close>: everything up to the call of the solver.
  The result is \<open>(c, A, b)\<close> and the number of matrix inversions.
\<close>

definition linear_irl_lp ::
  "matrix_inverse \<Rightarrow> tensor \<Rightarrow> real list list \<Rightarrow> real \<Rightarrow> real \<Rightarrow> real
     \<Rightarrow> error + (real list \<times> real list list \<times> real list) \<times> nat" where
  "linear_irl_lp linalg_inv trans_probs policy gamma l1 r_max =
     (let number_of_states = shape0 trans_probs;
          number_of_actions = shape2 trans_probs;
          A0 = replicate (2 * number_of_states * (number_of_actions + 1))
                 (replicate (3 * number_of_states) 0);
          b0 = replicate (2 * number_of_states * (number_of_actions + 1)) 0;
          c0 = replicate (3 * number_of_states) 0;
          base = 2 * number_of_states * (number_of_actions - 1)
      in case for_each [0..<number_of_states]
                (policy_constraints linalg_inv trans_probs policy gamma) (A0, 0) of
           Inl e \<Rightarrow> Inl e
         | Inr (A1, inv_calls) \<Rightarrow>
        (case for_each [0..<number_of_states]
                (upper_bound_row base number_of_states r_max) (A1, b0) of
           Inl e \<Rightarrow> Inl e
         | Inr (A2, b2) \<Rightarrow>
        (case for_each [0..<number_of_states]
                (lower_bound_row base number_of_states) (A2, b2) of
           Inl e \<Rightarrow> Inl e
         | Inr (A3, b3) \<Rightarrow>
        (case for_each [0..<number_of_states] (slack_row_first base number_of_states) A3 of
           Inl e \<Rightarrow> Inl e
         | Inr A4 \<Rightarrow>
        (case for_each [0..<number_of_states] (slack_row_second base number_of_states) A4 of
           Inl e \<Rightarrow> Inl e
         | Inr A5 \<Rightarrow>
        (case for_each [0..<number_of_states] (objective number_of_states l1) c0 of
           Inl e \<Rightarrow> Inl e
         | Inr c \<Rightarrow> Inr ((c, A5, b3), inv_calls)))))))"

text \<open>
  \<^verbatim>\<open>
  sol = solvers.lp(matrix(c), matrix(A), matrix(b))
  rewards = sol['x'][:number_of_states]
  rewards = normalise(rewards) * r_max
  \<close>
  Subscripting \<^verbatim>\<open>None\<close> is a \<^verbatim>\<open>TypeError\<close>; the slice of the solution is a cvxopt
  matrix.
\<close>

definition linear_irl ::
  "matrix_inverse \<Rightarrow> lp_solver \<Rightarrow> tensor \<Rightarrow> real list list \<Rightarrow> real \<Rightarrow> real \<Rightarrow> real
     \<Rightarrow> error + fval list" where
  "linear_irl linalg_inv lp_solver trans_probs policy gamma l1 r_max =
     (case linear_irl_lp linalg_inv trans_probs policy gamma l1 r_max of
        Inl e \<Rightarrow> Inl e
      | Inr ((c, A, b), inv_calls) \<Rightarrow>
          (case lp_solver c A b of
             None \<Rightarrow> Inl TypeError
           | Some x \<Rightarrow> normalise_times CvxoptMatrix (take (shape0 trans_probs) x) r_max))"

text \<open>A point \<open>x\<close> satisfies the inequality system \<open>A x \<le> b\<close> handed to the solver.\<close>

definition row_dot :: "real list \<Rightarrow> real list \<Rightarrow> real" where
  "row_dot row x = sum_list (map (\<lambda>j. row ! j * x ! j) [0..<length row])"

definition feasible :: "real list list \<Rightarrow> real list \<Rightarrow> real list \<Rightarrow> bool" where
  "feasible A b x \<longleftrightarrow>
     list_all (\<lambda>r. length x = length (A ! r) \<and> row_dot (A ! r) x \<le> b ! r) [0..<length A]"

subsection \<open>The orchestrator\<close>

text \<open>
  \<^verbatim>\<open>irl\<close> without the plotting: the four arrays handed to matplotlib. The dictionary
  \<^verbatim>\<open>env.P\<close> is read in the order of its keys \<open>0, \<dots>, nS - 1\<close> and \<open>0, \<dots>, nA - 1\<close>;
  \<^verbatim>\<open>value_2[0]\<close> on an empty list and a next state outside the arrays are
  \<^verbatim>\<open>IndexError\<close>s. The loop's variables are \<open>(trans_probs, rewards)\<close>.
\<close>

definition read_transition ::
  "env \<Rightarrow> nat \<Rightarrow> nat \<Rightarrow> (nat \<Rightarrow> nat \<Rightarrow> nat \<Rightarrow> real) \<times> real list
     \<Rightarrow> error + (nat \<Rightarrow> nat \<Rightarrow> nat \<Rightarrow> real) \<times> real list" where
  "read_transition env state action = (\<lambda>(trans_probs, rewards).
     case P env state action of
       [] \<Rightarrow> Inl IndexError
     | (prob, next_state, reward, dn) # rest \<Rightarrow>
         if next_state < nS env
         then Inr (\<lambda>s s' a. if s = state \<and> s' = next_state \<and> a = action then prob
                            else trans_probs s s' a,
                   rewards[next_state := reward])
         else Inl IndexError)"

definition read_environment :: "env \<Rightarrow> error + (nat \<Rightarrow> nat \<Rightarrow> nat \<Rightarrow> real) \<times> real list" where
  "read_environment env =
     for_each [0..<nS env]
       (\<lambda>state. for_each [0..<nA env] (read_transition env state))
       (\<lambda>s s' a. 0, replicate (nS env) 0)"

definition irl ::
  "matrix_inverse \<Rightarrow> lp_solver \<Rightarrow> env \<Rightarrow> real \<Rightarrow> real \<Rightarrow> real
     \<Rightarrow> (error + real list \<times> real list \<times> fval list \<times> real list) option" where
  "irl linalg_inv lp_solver env gamma l1 r_max =
     (case read_environment env of
        Inl e \<Rightarrow> Some (Inl e)
      | Inr (trans_probs, rewards) \<Rightarrow>
     (case value_iteration env (1 / 1000) gamma of
        None \<Rightarrow> None
      | Some (Inl e) \<Rightarrow> Some (Inl e)
      | Some (Inr (policy, values)) \<Rightarrow>
     (case linear_irl linalg_inv lp_solver \<lparr>shape0 = nS env, shape2 = nA env, entry = trans_probs\<rparr>
             policy gamma l1 r_max of
        Inl e \<Rightarrow> Some (Inl e)
      | Inr recovered_rewards \<Rightarrow>
     (case value_iteration env (1 / 1000) (9 / 10) of
        None \<Rightarrow> None
      | Some (Inl e) \<Rightarrow> Some (Inl e)
      | Some (Inr (unused_policy, recovered_values)) \<Rightarrow>
          Some (Inr (rewards, values, recovered_rewards, recovered_values))))))"

subsection \<open>Stand-ins for the library functions in concrete instances\<close>

text \<open>
  The inverse of a \<open>2 \<times> 2\<close> matrix by the adjugate formula, for the instances on the
  two-state environment; on a singular matrix \<^verbatim>\<open>np.linalg.inv\<close> raises \<^verbatim>\<open>LinAlgError\<close>.
\<close>

definition inv_2x2 :: matrix_inverse where
  "inv_2x2 n M =
     (let det = M 0 0 * M 1 1 - M 0 1 * M 1 0
      in if n \<noteq> 2 \<or> det = 0 then Inl LinAlgError
         else Inr (\<lambda>r c.
                if r = 0 \<and> c = 0 then M 1 1 / det
                else if r = 0 \<and> c = 1 then - M 0 1 / det
                else if r = 1 \<and> c = 0 then - M 1 0 / det
                else M 0 0 / det))"

text \<open>The transition tensor that \<^verbatim>\<open>irl\<close> builds from the two-state environment.\<close>

definition two_state_tensor :: tensor where
  "two_state_tensor =
     \<lparr>shape0 = 2, shape2 = 2,
      entry = (\<lambda>s s' a. if s = 0 \<and> s' = 0 \<and> a = 0 then 1
                         else if s = 0 \<and> s' = 1 \<and> a = 1 then 1
                         else if s = 1 \<and> s' = 1 \<and> (a = 0 \<or> a = 1) then 1
                         else 0)\<rparr>"

subsection \<open>Finite Markov decision processes and the Bellman backup\<close>

text \<open>
  The hypothesis of the convergence claim, from the data model of the specification: a
  finite MDP has at least one action, every transition leads to a state of the MDP, and
  the probabilities of the transitions of a state-action pair are non-negative and sum
  to at most \<open>1\<close> (to \<open>1\<close>, or to \<open>0\<close> for a configuration modelled as unreachable).
\<close>

definition finite_mdp :: "env \<Rightarrow> bool" where
  "finite_mdp env \<longleftrightarrow>
     0 < nA env \<and>
     (\<forall>s<nS env. \<forall>a<nA env.
        (\<forall>t\<in>set (P env s a). 0 \<le> fst t \<and> fst (snd t) < nS env)
        \<and> sum_list (map fst (P env s a)) \<le> 1)"

text \<open>
  Notions of the convergence proof, not functions of the source: the value of an action
  (what \<open>action_value\<close> computes when no index is out of range), the Bellman backup of a
  state (the maximum over the actions), and a pass over a list of states that
  overwrites \<open>V\<close> in place, as the \<^verbatim>\<open>for\<close> loop of the source does.
\<close>

definition q_value :: "env \<Rightarrow> real \<Rightarrow> real list \<Rightarrow> nat \<Rightarrow> nat \<Rightarrow> real" where
  "q_value env g V s a =
     sum_list (map (\<lambda>t. fst t * (fst (snd (snd t)) + g * V ! fst (snd t))) (P env s a))"

definition backup :: "env \<Rightarrow> real \<Rightarrow> real list \<Rightarrow> nat \<Rightarrow> real" where
  "backup env g V s = Max ((\<lambda>a. q_value env g V s a) ` {..<nA env})"

definition in_place_pass :: "env \<Rightarrow> real \<Rightarrow> nat list \<Rightarrow> real list \<Rightarrow> real list" where
  "in_place_pass env g ss V = fold (\<lambda>s V. V[s := backup env g V s]) ss V"

definition max_change :: "nat \<Rightarrow> real list \<Rightarrow> real list \<Rightarrow> real" where
  "max_change n V' V = Max (insert 0 ((\<lambda>s. \<bar>V' ! s - V ! s\<bar>) ` {..<n}))"

subsection \<open>A concrete environment\<close>

text \<open>
  Two states and two actions, every transition deterministic. In state \<open>0\<close> action \<open>0\<close>
  stays (reward \<open>0\<close>) and action \<open>1\<close> moves to state \<open>1\<close> (reward \<open>1\<close>); state \<open>1\<close> is
  absorbing with reward \<open>0\<close>. The theorems below are instantiated on it.
\<close>

definition two_state_env :: env where
  "two_state_env =
     \<lparr>nS = 2, nA = 2,
      P = (\<lambda>s a. if s = 0 then (if a = 1 then [(1, 1, 1, False)] else [(1, 0, 0, False)])
                 else [(1, 1, 0, True)])\<rparr>"

section \<open>Properties\<close>

subsection \<open>Reductions\<close>

lemma np_min_Min: "vals \<noteq> [] \<Longrightarrow> np_min vals = Inr (Min (set vals))"
  by (cases vals) (simp_all add: Min.set_eq_fold del: set_simps)

lemma np_max_Max: "vals \<noteq> [] \<Longrightarrow> np_max vals = Inr (Max (set vals))"
  by (cases vals) (simp_all add: Max.set_eq_fold del: set_simps)

subsection \<open>The reward normaliser\<close>

lemma all_equal_hd:
  assumes "v \<noteq> []" "\<forall>i<length v. \<forall>j<length v. v ! i = v ! j"
  shows "Min (set v) = hd v" "Max (set v) = hd v" "\<forall>x\<in>set v. x = hd v"
proof -
  show a: "\<forall>x\<in>set v. x = hd v"
    using assms by (metis hd_conv_nth in_set_conv_nth length_greater_0_conv)
  then have "set v = {hd v}" using assms(1) by (cases v) auto
  then show "Min (set v) = hd v" "Max (set v) = hd v" by simp_all
qed

lemma not_constant_Min_less_Max:
  assumes "\<exists>i<length v. \<exists>j<length v. v ! i \<noteq> v ! j"
  shows "Min (set v) < Max (set v)"
proof (rule ccontr)
  from assms have fin: "finite (set v)" "set v \<noteq> {}" by auto
  assume "\<not> Min (set v) < Max (set v)"
  then have "Max (set v) \<le> Min (set v)" by simp
  then have "\<forall>x\<in>set v. x = Min (set v)"
    using fin by (metis Max_ge Min_le order_antisym order_trans List.finite_set)
  then show False using assms by (metis nth_mem)
qed

text \<open>
  Claim C3. For a vector \<open>v\<close> with two different entries and \<open>r_max > 0\<close>, the
  expression \<^verbatim>\<open>normalise(v) * r_max\<close> returns, whatever the array type, the vector of
  \<open>(x - min v) / (max v - min v) * r_max\<close>; its minimum is exactly \<open>0\<close>, its maximum
  exactly \<open>r_max\<close>, and every entry lies in \<open>[0, r_max]\<close>. (Floats are read as reals.)
\<close>

theorem normalise_bounds:
  assumes nc: "\<exists>i<length v. \<exists>j<length v. v ! i \<noteq> v ! j" and r: "0 < r_max"
  shows "\<exists>out. normalise_times t v r_max = Inr (map Finite out)
           \<and> out = map (\<lambda>x. (x - Min (set v)) / (Max (set v) - Min (set v)) * r_max) v
           \<and> Min (set out) = 0 \<and> Max (set out) = r_max
           \<and> (\<forall>y\<in>set out. 0 \<le> y \<and> y \<le> r_max)"
proof -
  from nc have ne: "v \<noteq> []" by auto
  let ?m = "Min (set v)" and ?M = "Max (set v)"
  have fin: "finite (set v)" "set v \<noteq> {}" using ne by auto
  have mM: "?m \<in> set v" "?M \<in> set v" using fin by (auto intro: Min_in Max_in)
  have lt: "?m < ?M" by (rule not_constant_Min_less_Max[OF nc])
  let ?f = "\<lambda>x. (x - ?m) / (?M - ?m) * r_max"
  let ?out = "map ?f v"
  have n: "normalise_times t v r_max = Inr (map Finite ?out)"
    using lt by (cases t)
      (simp_all add: normalise_times_def normalise_def np_min_Min[OF ne] np_max_Max[OF ne]
         true_divide_def ieee_div_def comp_def)
  have bnd: "\<forall>y\<in>set ?out. 0 \<le> y \<and> y \<le> r_max"
  proof
    fix y assume "y \<in> set ?out"
    then obtain x where x: "x \<in> set v" "y = ?f x" by auto
    have "?m \<le> x" "x \<le> ?M" using x(1) by simp_all
    then have q: "0 \<le> (x - ?m) / (?M - ?m)" "(x - ?m) / (?M - ?m) \<le> 1"
      using lt by simp_all
    have "0 \<le> (x - ?m) / (?M - ?m) * r_max"
      using q(1) r by (intro mult_nonneg_nonneg) simp_all
    moreover have "(x - ?m) / (?M - ?m) * r_max \<le> 1 * r_max"
      using q(2) r by (intro mult_right_mono) simp_all
    ultimately show "0 \<le> y \<and> y \<le> r_max" using x(2) by simp
  qed
  have z: "0 \<in> set ?out" using mM(1) by (auto simp: image_iff intro!: bexI[of _ ?m])
  have o: "r_max \<in> set ?out"
    using mM(2) lt by (auto simp: image_iff intro!: bexI[of _ ?M])
  have "Min (set ?out) = 0" using z bnd by (intro Min_eqI) auto
  moreover have "Max (set ?out) = r_max" using o bnd by (intro Max_eqI) auto
  ultimately show ?thesis using n bnd by blast
qed


theorem normalise_bounds_witness:
  "(\<exists>i<length [1, 3, 2 :: real]. \<exists>j<length [1, 3, 2 :: real]. [1, 3, 2 :: real] ! i \<noteq> [1, 3, 2] ! j)
   \<and> (0 :: real) < 5
   \<and> (\<exists>out. normalise_times CvxoptMatrix [1, 3, 2] 5 = Inr (map Finite out)
         \<and> out = map (\<lambda>x. (x - Min (set [1, 3, 2])) / (Max (set [1, 3, 2]) - Min (set [1, 3, 2])) * 5) [1, 3, 2]
         \<and> Min (set out) = 0 \<and> Max (set out) = 5
         \<and> (\<forall>y\<in>set out. 0 \<le> y \<and> y \<le> 5))
   \<and> normalise_times CvxoptMatrix [1, 3, 2] 5 = Inr [Finite 0, Finite 5, Finite (5 / 2)]"
proof -
  have "(0::nat) < length [1, 3, 2 :: real] \<and> (1::nat) < length [1, 3, 2 :: real]
        \<and> [1, 3, 2 :: real] ! 0 \<noteq> [1, 3, 2] ! 1" by simp
  then have h: "\<exists>i<length [1, 3, 2 :: real]. \<exists>j<length [1, 3, 2 :: real]. [1, 3, 2 :: real] ! i \<noteq> [1, 3, 2] ! j"
    by blast
  have r: "(0 :: real) < 5" by simp
  have e: "normalise_times CvxoptMatrix [1, 3, 2] 5 = Inr [Finite 0, Finite 5, Finite (5 / 2)]"
    by (simp add: normalise_times_def normalise_def true_divide_def)
  show ?thesis by (intro conjI h r e normalise_bounds[OF h r])
qed

text \<open>
  Claim C4, as stated, fails: on a constant vector the normaliser raises no
  \<open>DegenerateRewardError\<close>. Fed the all-zero numpy array it returns a vector of \<open>NaN\<close>.
\<close>

theorem normalise_constant_counterexample:
  "normalise Ndarray [0, 0, 0] = Inr [NaN, NaN, NaN]
   \<and> normalise Ndarray [0, 0, 0] \<noteq> Inl DegenerateRewardError"
  by (simp add: normalise_def true_divide_def ieee_div_def)

text \<open>
  Claim C4, amended. For every non-empty vector whose entries are all equal the
  normaliser divides zero by zero: on a numpy array the result is a vector of \<open>NaN\<close> of
  the same length, on a cvxopt matrix (the call of \<^verbatim>\<open>linear_irl\<close>) it is a
  \<^verbatim>\<open>ZeroDivisionError\<close>. Neither is a \<open>DegenerateRewardError\<close>.
\<close>

theorem normalise_constant:
  assumes "v \<noteq> []" "\<forall>i<length v. \<forall>j<length v. v ! i = v ! j"
  shows "normalise Ndarray v = Inr (replicate (length v) NaN)
       \<and> normalise CvxoptMatrix v = Inl ZeroDivisionError"
proof -
  have m: "np_min v = Inr (hd v)" "np_max v = Inr (hd v)"
    using all_equal_hd[OF assms] np_min_Min[OF assms(1)] np_max_Max[OF assms(1)]
    by simp_all
  have z: "map (\<lambda>x. ieee_div (x - hd v) 0) v = replicate (length v) NaN"
    using all_equal_hd(3)[OF assms]
    by (simp add: map_replicate_const[symmetric] ieee_div_def cong: map_cong)
  show ?thesis
    by (simp add: normalise_def m true_divide_def z comp_def)
qed

theorem normalise_constant_witness:
  "[2, 2 :: real] \<noteq> []
   \<and> normalise Ndarray [2, 2] = Inr (replicate (length [2, 2 :: real]) NaN)
   \<and> normalise CvxoptMatrix [2, 2] = Inl ZeroDivisionError"
proof -
  have h1: "[2, 2 :: real] \<noteq> []" by simp
  have h2: "\<forall>i<length [2, 2 :: real]. \<forall>j<length [2, 2 :: real]. [2, 2 :: real] ! i = [2, 2] ! j"
    by (simp add: nth_Cons')
  show ?thesis
    by (intro conjI h1 conjunct1[OF normalise_constant[OF h1 h2]]
          conjunct2[OF normalise_constant[OF h1 h2]])
qed

lemma for_each_append:
  "for_each (xs @ ys) body s =
     (case for_each xs body s of Inl e \<Rightarrow> Inl e | Inr s' \<Rightarrow> for_each ys body s')"
  by (induction xs arbitrary: s) (auto split: sum.splits)

lemma for_each_snoc:
  "for_each (xs @ [x]) body s =
     (case for_each xs body s of Inl e \<Rightarrow> Inl e | Inr s' \<Rightarrow> body x s')"
  by (simp add: for_each_append split: sum.splits)

lemma for_each_range_rule:
  assumes "for_each [0..<n] body s0 = Inr sn" and "I 0 s0"
    and "\<And>k s s'. k < n \<Longrightarrow> I k s \<Longrightarrow> body k s = Inr s' \<Longrightarrow> I (Suc k) s'"
  shows "I n sn"
  using assms
proof (induction n arbitrary: sn)
  case 0
  then show ?case by simp
next
  case (Suc n)
  from Suc.prems(1) obtain s where s: "for_each [0..<n] body s0 = Inr s" "body n s = Inr sn"
    by (auto simp: for_each_snoc split: sum.splits)
  have "I n s" using s(1) Suc.prems(2,3) by (intro Suc.IH) auto
  then show ?case using Suc.prems(3)[of n s sn] s(2) by simp
qed

lemma for_each_range_total:
  assumes "I 0 s0"
    and "\<And>k s. k < n \<Longrightarrow> I k s \<Longrightarrow> \<exists>s'. body k s = Inr s' \<and> I (Suc k) s'"
  shows "\<exists>sn. for_each [0..<n] body s0 = Inr sn \<and> I n sn"
  using assms
proof (induction n)
  case 0
  then show ?case by simp
next
  case (Suc n)
  then obtain s where s: "for_each [0..<n] body s0 = Inr s" "I n s" by force
  from Suc.prems(2)[of n s] s(2) obtain s' where "body n s = Inr s'" "I (Suc n) s'" by auto
  then show ?case using s(1) by (simp add: for_each_snoc)
qed

lemma argmax_from_spec:
  assumes "length pre = i" "best < i" "bv = pre ! best"
    and "\<forall>j<i. pre ! j \<le> bv" and "\<forall>j<best. pre ! j < bv"
  shows "argmax_from best bv i xs < length (pre @ xs)
       \<and> (\<forall>j<length (pre @ xs). (pre @ xs) ! j \<le> (pre @ xs) ! argmax_from best bv i xs)
       \<and> (\<forall>j<argmax_from best bv i xs. (pre @ xs) ! j < (pre @ xs) ! argmax_from best bv i xs)"
  using assms
proof (induction xs arbitrary: pre i best bv)
  case Nil
  then show ?case by simp
next
  case (Cons x xs)
  show ?case
  proof (cases "bv < x")
    case True
    have "argmax_from i x (Suc i) xs < length ((pre @ [x]) @ xs)
       \<and> (\<forall>j<length ((pre @ [x]) @ xs). ((pre @ [x]) @ xs) ! j \<le> ((pre @ [x]) @ xs) ! argmax_from i x (Suc i) xs)
       \<and> (\<forall>j<argmax_from i x (Suc i) xs. ((pre @ [x]) @ xs) ! j < ((pre @ [x]) @ xs) ! argmax_from i x (Suc i) xs)"
    proof (rule Cons.IH)
      show "length (pre @ [x]) = Suc i" using Cons.prems(1) by simp
      show "i < Suc i" by simp
      show "x = (pre @ [x]) ! i" using Cons.prems(1) by auto
      show "\<forall>j<Suc i. (pre @ [x]) ! j \<le> x"
        using Cons.prems(1,4) True by (auto simp: nth_append less_Suc_eq)
      show "\<forall>j<i. (pre @ [x]) ! j < x"
        using Cons.prems(1,4) True by (auto simp: nth_append)
    qed
    then show ?thesis using True by simp
  next
    case False
    have "argmax_from best bv (Suc i) xs < length ((pre @ [x]) @ xs)
       \<and> (\<forall>j<length ((pre @ [x]) @ xs). ((pre @ [x]) @ xs) ! j \<le> ((pre @ [x]) @ xs) ! argmax_from best bv (Suc i) xs)
       \<and> (\<forall>j<argmax_from best bv (Suc i) xs. ((pre @ [x]) @ xs) ! j < ((pre @ [x]) @ xs) ! argmax_from best bv (Suc i) xs)"
    proof (rule Cons.IH)
      show "length (pre @ [x]) = Suc i" using Cons.prems(1) by simp
      show "best < Suc i" using Cons.prems(2) by simp
      show "bv = (pre @ [x]) ! best" using Cons.prems(1,2,3) by (simp add: nth_append)
      show "\<forall>j<Suc i. (pre @ [x]) ! j \<le> bv"
        using Cons.prems(1,4) False by (auto simp: nth_append less_Suc_eq)
      show "\<forall>j<best. (pre @ [x]) ! j < bv"
        using Cons.prems(1,2,5) by (auto simp: nth_append)
    qed
    then show ?thesis using False by simp
  qed
qed

lemma np_argmax_spec:
  assumes "np_argmax A = Inr a"
  shows "a < length A" "\<forall>j<length A. A ! j \<le> A ! a" "\<forall>j<a. A ! j < A ! a" "A ! a = Max (set A)"
proof -
  from assms obtain x xs where A: "A = x # xs" and a: "a = argmax_from 0 x 1 xs"
    by (cases A) auto
  have *: "argmax_from 0 x 1 xs < length ([x] @ xs)
       \<and> (\<forall>j<length ([x] @ xs). ([x] @ xs) ! j \<le> ([x] @ xs) ! argmax_from 0 x 1 xs)
       \<and> (\<forall>j<argmax_from 0 x 1 xs. ([x] @ xs) ! j < ([x] @ xs) ! argmax_from 0 x 1 xs)"
    by (rule argmax_from_spec) simp_all
  show 1: "a < length A" and 2: "\<forall>j<length A. A ! j \<le> A ! a" and "\<forall>j<a. A ! j < A ! a"
    using * A a by simp_all
  show "A ! a = Max (set A)"
  proof (rule Max_eqI[symmetric])
    show "finite (set A)" by simp
    show "A ! a \<in> set A" using 1 by simp
    fix y assume "y \<in> set A"
    then show "y \<le> A ! a" using 2 by (auto simp: in_set_conv_nth)
  qed
qed

subsection \<open>The greedy policy of value iteration\<close>

lemma collect_length: "collect xs = Inr vs \<Longrightarrow> length vs = length xs"
  by (induction xs arbitrary: vs) (auto split: sum.splits)

lemma one_step_lookahead_length:
  "one_step_lookahead env g s V = Inr A \<Longrightarrow> length A = nA env"
  by (auto simp: one_step_lookahead_def dest: collect_length)

lemma sum_list_unit_row: "a < n \<Longrightarrow> sum_list ((replicate n (0::real))[a := 1]) = 1"
  by (simp add: upd_conv_take_nth_drop sum_list_replicate)

lemma choose_action_step:
  assumes "choose_action env g V s pol = Inr pol'"
  shows "\<exists>A a. one_step_lookahead env g s V = Inr A \<and> np_argmax A = Inr a
           \<and> s < length pol \<and> a < length (pol ! s) \<and> pol' = pol[s := (pol ! s)[a := 1]]"
  using assms
  by (auto simp: choose_action_def set_item2_def split: sum.splits if_splits)

lemma greedy_policy_rows:
  assumes "greedy_policy env g V = Inr policy"
  shows "length policy = nS env
       \<and> (\<forall>s<nS env. \<exists>A a. one_step_lookahead env g s V = Inr A \<and> np_argmax A = Inr a
              \<and> policy ! s = (replicate (nA env) 0)[a := 1])"
proof -
  let ?ok = "\<lambda>s row. \<exists>A a. one_step_lookahead env g s V = Inr A \<and> np_argmax A = Inr a
              \<and> row = (replicate (nA env) 0)[a := 1]"
  let ?I = "\<lambda>k pol. length pol = nS env \<and> (\<forall>s<k. ?ok s (pol ! s))
              \<and> (\<forall>s. k \<le> s \<and> s < nS env \<longrightarrow> pol ! s = replicate (nA env) 0)"
  have "?I (nS env) policy"
  proof (rule for_each_range_rule[where I = ?I, OF assms[unfolded greedy_policy_def]])
    show "?I 0 (replicate (nS env) (replicate (nA env) 0))" by simp
  next
    fix k pol pol'
    assume k: "k < nS env" and I: "?I k pol" and st: "choose_action env g V k pol = Inr pol'"
    from choose_action_step[OF st] obtain A a where
      A: "one_step_lookahead env g k V = Inr A" "np_argmax A = Inr a"
         "pol' = pol[k := (pol ! k)[a := 1]]"
      by blast
    have pk: "pol ! k = replicate (nA env) 0" using I k by simp
    have "?ok k (pol' ! k)"
      using A I k pk by auto
    moreover have "\<forall>s<k. pol' ! s = pol ! s" using A(3) by simp
    moreover have "\<forall>s. Suc k \<le> s \<and> s < nS env \<longrightarrow> pol' ! s = pol ! s" using A(3) by simp
    ultimately show "?I (Suc k) pol'"
      using I A(3) by (auto simp: less_Suc_eq)
  qed
  then show ?thesis by simp
qed

text \<open>
  Claim C9. Whenever value iteration returns, its policy has one row per state, and every
  row has length \<open>nA\<close>, entry \<open>1\<close> at the action \<open>a\<close> and \<open>0\<close> everywhere else (so it sums
  to \<open>1\<close>), where \<open>a\<close> is the first maximiser of the one-step lookahead at the returned
  \<open>V\<close>: no action has a larger value and every action before \<open>a\<close> has a strictly smaller
  one.
\<close>

theorem value_iteration_policy_deterministic:
  assumes "value_iteration env theta discount_factor = Some (Inr (policy, V))"
  shows "length policy = nS env
       \<and> (\<forall>s<nS env. \<exists>A a.
            one_step_lookahead env discount_factor s V = Inr A
          \<and> a < nA env \<and> (\<forall>j<nA env. A ! j \<le> A ! a) \<and> (\<forall>j<a. A ! j < A ! a)
          \<and> length (policy ! s) = nA env \<and> policy ! s ! a = 1
          \<and> (\<forall>j<nA env. j \<noteq> a \<longrightarrow> policy ! s ! j = 0)
          \<and> sum_list (policy ! s) = 1)"
proof -
  from assms have g: "greedy_policy env discount_factor V = Inr policy"
    by (auto simp: value_iteration_def split: option.splits sum.splits)
  note r = greedy_policy_rows[OF g]
  show ?thesis
  proof (intro conjI allI impI)
    show "length policy = nS env" using r by simp
  next
    fix s assume "s < nS env"
    with r obtain A a where A: "one_step_lookahead env discount_factor s V = Inr A"
      "np_argmax A = Inr a" "policy ! s = (replicate (nA env) 0)[a := 1]"
      by blast
    have len: "length A = nA env" by (rule one_step_lookahead_length[OF A(1)])
    note am = np_argmax_spec[OF A(2)]
    show "\<exists>A a. one_step_lookahead env discount_factor s V = Inr A
          \<and> a < nA env \<and> (\<forall>j<nA env. A ! j \<le> A ! a) \<and> (\<forall>j<a. A ! j < A ! a)
          \<and> length (policy ! s) = nA env \<and> policy ! s ! a = 1
          \<and> (\<forall>j<nA env. j \<noteq> a \<longrightarrow> policy ! s ! j = 0)
          \<and> sum_list (policy ! s) = 1"
      using A(1,3) am(1,2,3) len
      by (intro exI[of _ A] exI[of _ a]) (simp add: sum_list_unit_row)
  qed
qed


lemma upt_2: "[0..<2] = [0, Suc 0]" by (simp add: upt_rec)

lemma two_state_dims: "nS two_state_env = 2" "nA two_state_env = 2"
  by (simp_all add: two_state_env_def)

lemma two_state_lookahead:
  "one_step_lookahead two_state_env g 0 [x, y] = Inr [g * x, 1 + g * y]"
  "one_step_lookahead two_state_env g (Suc 0) [x, y] = Inr [g * y, g * y]"
  by (simp_all add: one_step_lookahead_def two_state_env_def upt_2)

lemma two_state_sweep:
  "sweep two_state_env g [x, y] =
     Inr ([max (g * x) (1 + g * y), g * y],
          max (max 0 \<bar>max (g * x) (1 + g * y) - x\<bar>) \<bar>g * y - y\<bar>)"
  by (simp add: sweep_def update_state_def two_state_lookahead upt_2 two_state_dims max.commute)

lemma two_state_vi_loop:
  assumes "0 \<le> g" "g \<le> 1"
  shows "vi_loop two_state_env (1 / 1000) g [0, 0] = Some (Inr ([1, 0], 0))"
proof -
  have m: "max g 1 = 1" using assms by simp
  have a: "vi_loop two_state_env (1 / 1000) g [0, 0] = vi_loop two_state_env (1 / 1000) g [1, 0]"
    by (subst vi_loop.simps) (simp add: two_state_sweep)
  have b: "vi_loop two_state_env (1 / 1000) g [1, 0] = Some (Inr ([1, 0], 0))"
    by (subst vi_loop.simps) (simp add: two_state_sweep m)
  show ?thesis using a b by simp
qed

lemma two_state_greedy:
  assumes "0 \<le> g" "g < 1"
  shows "greedy_policy two_state_env g [1, 0] = Inr [[0, 1], [1, 0]]"
  using assms
  by (simp add: greedy_policy_def choose_action_def two_state_lookahead upt_2 two_state_dims
      set_item2_def numeral_2_eq_2)

lemma two_state_value_iteration:
  assumes "0 \<le> g" "g < 1"
  shows "value_iteration two_state_env (1 / 1000) g = Some (Inr ([[0, 1], [1, 0]], [1, 0]))"
proof -
  have le: "g \<le> 1" using assms(2) by simp
  have z: "replicate (nS two_state_env) (0::real) = [0, 0]"
    by (simp add: two_state_dims numeral_2_eq_2)
  show ?thesis
    by (simp add: value_iteration_def z two_state_vi_loop[OF assms(1) le]
        two_state_greedy[OF assms])
qed

theorem value_iteration_policy_deterministic_witness:
  "value_iteration two_state_env (1 / 1000) (9 / 10) = Some (Inr ([[0, 1], [1, 0]], [1, 0]))
   \<and> length [[0, 1], [1, 0 :: real]] = nS two_state_env
   \<and> (\<exists>A a. one_step_lookahead two_state_env (9 / 10) 0 [1, 0] = Inr A
          \<and> a < nA two_state_env \<and> (\<forall>j<nA two_state_env. A ! j \<le> A ! a) \<and> (\<forall>j<a. A ! j < A ! a)
          \<and> length ([[0, 1], [1, 0 :: real]] ! 0) = nA two_state_env
          \<and> [[0, 1], [1, 0 :: real]] ! 0 ! a = 1
          \<and> (\<forall>j<nA two_state_env. j \<noteq> a \<longrightarrow> [[0, 1], [1, 0 :: real]] ! 0 ! j = 0)
          \<and> sum_list ([[0, 1], [1, 0 :: real]] ! 0) = 1)"
proof -
  have e: "value_iteration two_state_env (1 / 1000) (9 / 10) = Some (Inr ([[0, 1], [1, 0]], [1, 0]))"
    by (rule two_state_value_iteration) simp_all
  have z: "0 < nS two_state_env" by (simp add: two_state_dims)
  note t = value_iteration_policy_deterministic[OF e]
  show ?thesis
    by (intro conjI e conjunct1[OF t] conjunct2[OF t, rule_format, OF z])
qed

subsection \<open>Which exceptions value iteration can raise\<close>

lemma for_each_error:
  "for_each xs body s = Inl e \<Longrightarrow> \<exists>i s'. body i s' = Inl e"
  by (induction xs arbitrary: s) (auto split: sum.splits)

lemma action_value_error: "action_value g V ts acc = Inl e \<Longrightarrow> e = IndexError"
  by (induction g V ts acc rule: action_value.induct) (auto split: if_splits)

lemma collect_error: "collect xs = Inl e \<Longrightarrow> Inl e \<in> set xs"
  by (induction xs) (auto split: sum.splits)

lemma one_step_lookahead_error:
  "one_step_lookahead env g s V = Inl e \<Longrightarrow> e = IndexError"
  by (auto simp: one_step_lookahead_def dest!: collect_error dest: action_value_error[OF sym])

lemma np_max_error: "np_max A = Inl e \<Longrightarrow> e = ValueError"
  by (cases A) auto

lemma np_argmax_error: "np_argmax A = Inl e \<Longrightarrow> e = ValueError"
  by (cases A) auto

lemma update_state_error:
  "update_state env g s st = Inl e \<Longrightarrow> e = IndexError \<or> e = ValueError"
  by (cases st)
    (auto simp: update_state_def split: sum.splits if_splits
      dest: one_step_lookahead_error np_max_error)

lemma sweep_error: "sweep env g V = Inl e \<Longrightarrow> e = IndexError \<or> e = ValueError"
  unfolding sweep_def by (blast dest: for_each_error update_state_error)

lemma choose_action_error:
  "choose_action env g V s pol = Inl e \<Longrightarrow> e = IndexError \<or> e = ValueError"
  by (auto simp: choose_action_def set_item2_def split: sum.splits if_splits
      dest: one_step_lookahead_error np_argmax_error)

lemma greedy_policy_error:
  "greedy_policy env g V = Inl e \<Longrightarrow> e = IndexError \<or> e = ValueError"
  unfolding greedy_policy_def by (blast dest: for_each_error choose_action_error)

lemma vi_loop_result:
  assumes "vi_loop env theta g V = Some r"
  shows "\<forall>e. r = Inl e \<longrightarrow> e = IndexError \<or> e = ValueError"
proof (rule vi_loop.raw_induct
    [where P = "\<lambda>env theta g V r. \<forall>e. r = Inl e \<longrightarrow> e = IndexError \<or> e = ValueError", OF _ assms])
  fix loop :: "env \<Rightarrow> real \<Rightarrow> real \<Rightarrow> real list \<Rightarrow> (error + real list \<times> real) option"
  fix env theta g V r
  assume IH: "\<And>env theta g V r. loop env theta g V = Some r \<Longrightarrow>
                \<forall>e. r = Inl e \<longrightarrow> e = IndexError \<or> e = ValueError"
  assume eq: "(case sweep env g V of Inl e \<Rightarrow> Some (Inl e)
      | Inr (V', delta) \<Rightarrow>
          if delta < theta then Some (Inr (V', delta)) else loop env theta g V') = Some r"
  show "\<forall>e. r = Inl e \<longrightarrow> e = IndexError \<or> e = ValueError"
  proof (cases "sweep env g V")
    case (Inl e)
    with eq sweep_error[OF Inl] show ?thesis by auto
  next
    case (Inr vd)
    obtain V' delta where vd: "vd = (V', delta)" by (cases vd)
    show ?thesis
    proof (cases "delta < theta")
      case True
      with eq Inr vd show ?thesis by auto
    next
      case False
      with eq Inr vd have "loop env theta g V' = Some r" by simp
      then show ?thesis by (rule IH)
    qed
  qed
qed

lemma vi_loop_error:
  "vi_loop env theta g V = Some (Inl e) \<Longrightarrow> e = IndexError \<or> e = ValueError"
  using vi_loop_result by blast

text \<open>
  Claim C6, amended. With a discount factor \<open>\<ge> 1\<close> value iteration raises no
  \<open>ConfigurationError\<close>: it runs the same loop as for any other discount factor, and the
  call either does not terminate, or returns a policy and a value function, or fails
  with the \<^verbatim>\<open>IndexError\<close> or \<^verbatim>\<open>ValueError\<close> of a malformed environment.
\<close>

theorem value_iteration_discount_unchecked:
  assumes "1 \<le> discount_factor"
  shows "value_iteration env theta discount_factor = None
       \<or> (\<exists>policy V. value_iteration env theta discount_factor = Some (Inr (policy, V)))
       \<or> value_iteration env theta discount_factor = Some (Inl IndexError)
       \<or> value_iteration env theta discount_factor = Some (Inl ValueError)"
proof (cases "vi_loop env theta discount_factor (replicate (nS env) 0)")
  case None
  then show ?thesis by (simp add: value_iteration_def)
next
  case (Some r)
  show ?thesis
  proof (cases r)
    case (Inl e)
    with Some vi_loop_error[of env theta discount_factor _ e] show ?thesis
      by (auto simp: value_iteration_def)
  next
    case (Inr vd)
    obtain V delta where vd: "vd = (V, delta)" by (cases vd)
    show ?thesis
    proof (cases "greedy_policy env discount_factor V")
      case (Inl e)
      with Some Inr vd greedy_policy_error[of env discount_factor V e] show ?thesis
        by (auto simp: value_iteration_def)
    next
      case (Inr pol)
      with Some \<open>r = Inr vd\<close> vd show ?thesis by (simp add: value_iteration_def)
    qed
  qed
qed


theorem value_iteration_discount_unchecked_witness:
  "(1 :: real) \<le> 1
   \<and> (value_iteration two_state_env (1 / 1000) 1 = None
       \<or> (\<exists>policy V. value_iteration two_state_env (1 / 1000) 1 = Some (Inr (policy, V)))
       \<or> value_iteration two_state_env (1 / 1000) 1 = Some (Inl IndexError)
       \<or> value_iteration two_state_env (1 / 1000) 1 = Some (Inl ValueError))
   \<and> value_iteration two_state_env (1 / 1000) 1 \<noteq> None"
proof -
  have h: "(1 :: real) \<le> 1" by simp
  have z: "replicate (nS two_state_env) (0::real) = [0, 0]"
    by (simp add: two_state_dims numeral_2_eq_2)
  have "vi_loop two_state_env (1 / 1000) 1 [0, 0] \<noteq> None"
    using two_state_vi_loop[of 1] by simp
  moreover have "greedy_policy two_state_env 1 [1, 0] = Inr [[1, 0], [1, 0]]"
    by (simp add: greedy_policy_def choose_action_def two_state_lookahead upt_2 two_state_dims
        set_item2_def numeral_2_eq_2)
  ultimately have n: "value_iteration two_state_env (1 / 1000) 1 \<noteq> None"
    using two_state_vi_loop[of 1] by (simp add: value_iteration_def z)
  show ?thesis
    by (intro conjI h n value_iteration_discount_unchecked[OF h])
qed

text \<open>
  Claim C6, as stated, fails: on the two-state environment with discount factor \<open>1\<close>
  value iteration runs to completion and returns a policy and a value function.
\<close>

theorem value_iteration_discount_counterexample:
  "value_iteration two_state_env (1 / 1000) 1 = Some (Inr ([[1, 0], [1, 0]], [1, 0]))
   \<and> value_iteration two_state_env (1 / 1000) 1 \<noteq> Some (Inl ConfigurationError)"
proof -
  have z: "replicate (nS two_state_env) (0::real) = [0, 0]"
    by (simp add: two_state_dims numeral_2_eq_2)
  have g: "greedy_policy two_state_env 1 [1, 0] = Inr [[1, 0], [1, 0]]"
    by (simp add: greedy_policy_def choose_action_def two_state_lookahead upt_2 two_state_dims
        set_item2_def numeral_2_eq_2)
  have "value_iteration two_state_env (1 / 1000) 1 = Some (Inr ([[1, 0], [1, 0]], [1, 0]))"
    using two_state_vi_loop[of 1] by (simp add: value_iteration_def z g)
  then show ?thesis by simp
qed

text \<open>
  With discount factor \<open>2\<close> the same environment makes the loop run forever: the value of
  state \<open>0\<close> doubles in every pass and \<open>delta\<close> never falls below \<open>1 / 2\<close>.
\<close>

lemma two_state_diverges_aux:
  assumes "vi_loop env theta g V = Some r"
  shows "\<not> (env = two_state_env \<and> theta = 1 / 1000 \<and> g = 2 \<and> (\<exists>x\<ge>0. V = [x, 0]))"
proof (rule vi_loop.raw_induct
    [where P = "\<lambda>env theta g V r.
       \<not> (env = two_state_env \<and> theta = 1 / 1000 \<and> g = 2 \<and> (\<exists>x\<ge>0. V = [x, 0]))", OF _ assms])
  fix loop :: "env \<Rightarrow> real \<Rightarrow> real \<Rightarrow> real list \<Rightarrow> (error + real list \<times> real) option"
  fix env theta g V r
  assume IH: "\<And>env theta g V r. loop env theta g V = Some r \<Longrightarrow>
       \<not> (env = two_state_env \<and> theta = 1 / 1000 \<and> g = 2 \<and> (\<exists>x\<ge>0. V = [x, 0]))"
  assume eq: "(case sweep env g V of Inl e \<Rightarrow> Some (Inl e)
      | Inr (V', delta) \<Rightarrow>
          if delta < theta then Some (Inr (V', delta)) else loop env theta g V') = Some r"
  show "\<not> (env = two_state_env \<and> theta = 1 / 1000 \<and> g = 2 \<and> (\<exists>x\<ge>0. V = [x, 0]))"
  proof
    assume "env = two_state_env \<and> theta = 1 / 1000 \<and> g = 2 \<and> (\<exists>x\<ge>0. V = [x, 0])"
    then obtain x where c: "env = two_state_env" "theta = 1 / 1000" "g = 2" "0 \<le> x" "V = [x, 0]"
      by blast
    have d: "\<not> max (max 0 \<bar>max (2 * x) (1 + 2 * 0) - x\<bar>) \<bar>2 * 0 - 0\<bar> < (1 / 1000 :: real)"
      using c(4) by (simp add: max_def abs_if)
    have "loop two_state_env (1 / 1000) 2 [max (2 * x) 1, 0] = Some r"
      using eq d unfolding c by (simp add: two_state_sweep)
    moreover have "0 \<le> max (2 * x) 1" by simp
    ultimately show False using IH by blast
  qed
qed

lemma two_state_diverges: "value_iteration two_state_env (1 / 1000) 2 = None"
proof -
  have "vi_loop two_state_env (1 / 1000) 2 [0, 0] = None"
    using two_state_diverges_aux[of two_state_env "1 / 1000" 2 "[0, 0]"] by (cases "vi_loop two_state_env (1 / 1000) 2 [0, 0]") auto
  then show ?thesis
    by (simp add: value_iteration_def two_state_dims numeral_2_eq_2)
qed

subsection \<open>Convergence of value iteration\<close>

lemma action_value_sum:
  assumes "\<forall>t\<in>set ts. fst (snd t) < length V"
  shows "action_value g V ts acc =
           Inr (acc + sum_list (map (\<lambda>t. fst t * (fst (snd (snd t)) + g * V ! fst (snd t))) ts))"
  using assms
proof (induction ts arbitrary: acc)
  case Nil
  then show ?case by simp
next
  case (Cons t ts)
  obtain p s' r d where t: "t = (p, s', r, d)" by (cases t)
  from Cons.prems have "s' < length V" "\<forall>t\<in>set ts. fst (snd t) < length V"
    by (auto simp: t)
  then show ?case using Cons.IH by (simp add: t algebra_simps)
qed

lemma collect_map_Inr:
  assumes "\<forall>x\<in>set xs. f x = Inr (h x)"
  shows "collect (map f xs) = Inr (map h xs)"
  using assms by (induction xs) auto

lemma one_step_lookahead_q:
  assumes "finite_mdp env" "length V = nS env" "s < nS env"
  shows "one_step_lookahead env g s V = Inr (map (q_value env g V s) [0..<nA env])"
proof -
  have "\<forall>a\<in>set [0..<nA env].
          action_value g V (P env s a) 0 = Inr (q_value env g V s a)"
  proof
    fix a assume "a \<in> set [0..<nA env]"
    then have "a < nA env" by simp
    with assms have "\<forall>t\<in>set (P env s a). fst (snd t) < length V"
      by (auto simp: finite_mdp_def)
    from action_value_sum[OF this, of g 0]
    show "action_value g V (P env s a) 0 = Inr (q_value env g V s a)"
      by (simp add: q_value_def)
  qed
  then show ?thesis unfolding one_step_lookahead_def by (rule collect_map_Inr)
qed

lemma np_max_lookahead:
  assumes "0 < nA env"
  shows "np_max (map (q_value env g V s) [0..<nA env]) = Inr (backup env g V s)"
proof -
  have "map (q_value env g V s) [0..<nA env] \<noteq> []" using assms by simp
  from np_max_Max[OF this] show ?thesis
    by (simp add: backup_def atLeast0LessThan)
qed

lemma update_state_backup:
  assumes "finite_mdp env" "length V = nS env" "s < nS env"
  shows "update_state env g s (V, dl) =
           Inr (V[s := backup env g V s], max dl \<bar>backup env g V s - V ! s\<bar>)"
proof -
  have "0 < nA env" using assms(1) by (simp add: finite_mdp_def)
  then show ?thesis
    using assms by (simp add: update_state_def one_step_lookahead_q np_max_lookahead)
qed

lemma in_place_pass_length [simp]: "length (in_place_pass env g ss V) = length V"
  unfolding in_place_pass_def by (induction ss arbitrary: V) auto

lemma in_place_pass_snoc:
  "in_place_pass env g (ss @ [s]) V =
     (in_place_pass env g ss V)[s := backup env g (in_place_pass env g ss V) s]"
  by (simp add: in_place_pass_def)

lemma in_place_pass_untouched:
  "s \<notin> set ss \<Longrightarrow> in_place_pass env g ss V ! s = V ! s"
  unfolding in_place_pass_def by (induction ss arbitrary: V) auto

lemma max_change_Suc:
  "max_change (Suc k) V' V = max (max_change k V' V) \<bar>V' ! k - V ! k\<bar>"
proof -
  have "insert 0 ((\<lambda>s. \<bar>V' ! s - V ! s\<bar>) ` {..<Suc k})
      = insert \<bar>V' ! k - V ! k\<bar> (insert 0 ((\<lambda>s. \<bar>V' ! s - V ! s\<bar>) ` {..<k}))"
    by (auto simp: lessThan_Suc)
  then show ?thesis
    unfolding max_change_def by (simp add: max.commute)
qed

lemma max_change_cong:
  assumes "\<forall>s<k. V' ! s = U' ! s"
  shows "max_change k V' V = max_change k U' V"
proof -
  have "(\<lambda>s. \<bar>V' ! s - V ! s\<bar>) ` {..<k} = (\<lambda>s. \<bar>U' ! s - V ! s\<bar>) ` {..<k}"
    using assms by (intro image_cong) auto
  then show ?thesis by (simp add: max_change_def)
qed

lemma sweep_in_place_pass:
  assumes "finite_mdp env" "length V = nS env"
  shows "sweep env g V =
           Inr (in_place_pass env g [0..<nS env] V,
                max_change (nS env) (in_place_pass env g [0..<nS env] V) V)"
proof -
  let ?I = "\<lambda>k st. st = (in_place_pass env g [0..<k] V,
                           max_change k (in_place_pass env g [0..<k] V) V)"
  have "\<exists>st. for_each [0..<nS env] (update_state env g) (V, 0) = Inr st \<and> ?I (nS env) st"
  proof (rule for_each_range_total[where I = ?I])
    show "?I 0 (V, 0)" by (simp add: in_place_pass_def max_change_def)
  next
    fix k st
    assume k: "k < nS env" and I: "?I k st"
    let ?Vk = "in_place_pass env g [0..<k] V"
    let ?b = "backup env g ?Vk k"
    have len: "length ?Vk = nS env" using assms(2) by simp
    have step: "update_state env g k st =
        Inr (?Vk[k := ?b], max (max_change k ?Vk V) \<bar>?b - ?Vk ! k\<bar>)"
      unfolding I by (rule update_state_backup[OF assms(1) len k])
    have next_V: "in_place_pass env g [0..<Suc k] V = ?Vk[k := ?b]"
      by (simp add: in_place_pass_snoc)
    have same: "?Vk ! k = V ! k" by (rule in_place_pass_untouched) simp
    have "max_change (Suc k) (?Vk[k := ?b]) V
        = max (max_change k (?Vk[k := ?b]) V) \<bar>?Vk[k := ?b] ! k - V ! k\<bar>"
      by (rule max_change_Suc)
    also have "max_change k (?Vk[k := ?b]) V = max_change k ?Vk V"
      by (rule max_change_cong) simp
    also have "?Vk[k := ?b] ! k = ?b" using len k by simp
    finally have "max_change (Suc k) (?Vk[k := ?b]) V
        = max (max_change k ?Vk V) \<bar>?b - ?Vk ! k\<bar>"
      by (simp add: same)
    then show "\<exists>st'. update_state env g k st = Inr st' \<and> ?I (Suc k) st'"
      using step next_V by simp
  qed
  then show ?thesis by (simp add: sweep_def)
qed

lemma weighted_sum_lipschitz:
  fixes ts :: "transition list"
  assumes "\<forall>t\<in>set ts. 0 \<le> fst t \<and> fst (snd t) < n" "0 \<le> g"
    and "\<forall>j<n. \<bar>V ! j - W ! j\<bar> \<le> d"
  shows "\<bar>sum_list (map (\<lambda>t. fst t * (fst (snd (snd t)) + g * V ! fst (snd t))) ts)
        - sum_list (map (\<lambda>t. fst t * (fst (snd (snd t)) + g * W ! fst (snd t))) ts)\<bar>
       \<le> g * d * sum_list (map fst ts)"
  using assms(1)
proof (induction ts)
  case Nil
  then show ?case by simp
next
  case (Cons t ts)
  obtain p s' r dn where t: "t = (p, s', r, dn)" by (cases t)
  from Cons.prems have p: "0 \<le> p" "s' < n" and rest: "\<forall>t\<in>set ts. 0 \<le> fst t \<and> fst (snd t) < n"
    by (auto simp: t)
  let ?SV = "sum_list (map (\<lambda>t. fst t * (fst (snd (snd t)) + g * V ! fst (snd t))) ts)"
  let ?SW = "sum_list (map (\<lambda>t. fst t * (fst (snd (snd t)) + g * W ! fst (snd t))) ts)"
  have IH: "\<bar>?SV - ?SW\<bar> \<le> g * d * sum_list (map fst ts)" by (rule Cons.IH[OF rest])
  have "p * (r + g * V ! s') - p * (r + g * W ! s') = (p * g) * (V ! s' - W ! s')"
    by (simp add: algebra_simps)
  then have "\<bar>p * (r + g * V ! s') - p * (r + g * W ! s')\<bar> = (p * g) * \<bar>V ! s' - W ! s'\<bar>"
    using p(1) assms(2) by (simp add: abs_mult)
  also have "\<dots> \<le> (p * g) * d"
    using p assms(2,3) by (intro mult_left_mono) simp_all
  finally have hd: "\<bar>p * (r + g * V ! s') - p * (r + g * W ! s')\<bar> \<le> g * d * p"
    by (simp add: mult_ac)
  have "\<bar>(p * (r + g * V ! s') + ?SV) - (p * (r + g * W ! s') + ?SW)\<bar>
      \<le> \<bar>p * (r + g * V ! s') - p * (r + g * W ! s')\<bar> + \<bar>?SV - ?SW\<bar>"
    by linarith
  also have "\<dots> \<le> g * d * p + g * d * sum_list (map fst ts)"
    using hd IH by linarith
  finally show ?case by (simp add: t algebra_simps)
qed

lemma q_value_lipschitz:
  assumes "finite_mdp env" "s < nS env" "a < nA env" "0 \<le> g" "0 \<le> d"
    and "\<forall>j<nS env. \<bar>V ! j - W ! j\<bar> \<le> d"
  shows "\<bar>q_value env g V s a - q_value env g W s a\<bar> \<le> g * d"
proof -
  from assms(1,2,3) have v: "\<forall>t\<in>set (P env s a). 0 \<le> fst t \<and> fst (snd t) < nS env"
    and le: "sum_list (map fst (P env s a)) \<le> 1"
    by (auto simp: finite_mdp_def)
  have "\<bar>q_value env g V s a - q_value env g W s a\<bar>
      \<le> g * d * sum_list (map fst (P env s a))"
    unfolding q_value_def by (rule weighted_sum_lipschitz[OF v assms(4,6)])
  also have "\<dots> \<le> g * d * 1"
    using le assms(4,5) by (intro mult_left_mono) simp_all
  finally show ?thesis by simp
qed

lemma backup_lipschitz:
  assumes "finite_mdp env" "s < nS env" "0 \<le> g" "0 \<le> d"
    and "\<forall>j<nS env. \<bar>V ! j - W ! j\<bar> \<le> d"
  shows "\<bar>backup env g V s - backup env g W s\<bar> \<le> g * d"
proof -
  have ne: "{..<nA env} \<noteq> {}" using assms(1) by (auto simp: finite_mdp_def)
  have one: "backup env g V s \<le> backup env g W s + g * d"
    if h: "\<forall>j<nS env. \<bar>V ! j - W ! j\<bar> \<le> d" for V W
  proof -
    have "\<forall>x\<in>(\<lambda>a. q_value env g V s a) ` {..<nA env}. x \<le> backup env g W s + g * d"
    proof
      fix x assume "x \<in> (\<lambda>a. q_value env g V s a) ` {..<nA env}"
      then obtain a where a: "a < nA env" "x = q_value env g V s a" by auto
      have "\<bar>q_value env g V s a - q_value env g W s a\<bar> \<le> g * d"
        by (rule q_value_lipschitz[OF assms(1,2) a(1) assms(3,4) h])
      moreover have "q_value env g W s a \<le> backup env g W s"
        unfolding backup_def using a(1) by (intro Max_ge) auto
      ultimately show "x \<le> backup env g W s + g * d" using a(2) by linarith
    qed
    then show ?thesis unfolding backup_def[of env g V s] using ne by (subst Max_le_iff) auto
  qed
  have "\<forall>j<nS env. \<bar>W ! j - V ! j\<bar> \<le> d" using assms(5) by (simp add: abs_minus_commute)
  from one[OF assms(5)] one[OF this] show ?thesis by linarith
qed

lemma in_place_pass_Cons:
  "in_place_pass env g (s # ss) V = in_place_pass env g ss (V[s := backup env g V s])"
  by (simp add: in_place_pass_def)

lemma in_place_pass_contraction:
  assumes "finite_mdp env" "0 \<le> g" "g \<le> 1" "0 \<le> d"
    and "length V = nS env" "length W = nS env" "\<forall>s\<in>set ss. s < nS env"
    and "\<forall>j<nS env. \<bar>V ! j - W ! j\<bar> \<le> d"
  shows "(\<forall>j<nS env. \<bar>in_place_pass env g ss V ! j - in_place_pass env g ss W ! j\<bar> \<le> d)
       \<and> (\<forall>j\<in>set ss. \<bar>in_place_pass env g ss V ! j - in_place_pass env g ss W ! j\<bar> \<le> g * d)"
  using assms(5-8)
proof (induction ss arbitrary: V W)
  case Nil
  then show ?case by (simp add: in_place_pass_def)
next
  case (Cons s ss)
  let ?V1 = "V[s := backup env g V s]" and ?W1 = "W[s := backup env g W s]"
  have s: "s < nS env" and ss: "\<forall>s\<in>set ss. s < nS env" using Cons.prems(3) by auto
  have b: "\<bar>backup env g V s - backup env g W s\<bar> \<le> g * d"
    by (rule backup_lipschitz[OF assms(1) s assms(2,4) Cons.prems(4)])
  have "g * d \<le> 1 * d" using assms(3,4) by (intro mult_right_mono) simp_all
  then have gd: "g * d \<le> d" by simp
  have all1: "\<forall>j<nS env. \<bar>?V1 ! j - ?W1 ! j\<bar> \<le> d"
    using Cons.prems b gd by (auto simp: nth_list_update)
  have len: "length ?V1 = nS env" "length ?W1 = nS env" using Cons.prems by simp_all
  note IH = Cons.IH[OF len ss all1]
  have at_s: "\<bar>in_place_pass env g ss ?V1 ! s - in_place_pass env g ss ?W1 ! s\<bar> \<le> g * d"
  proof (cases "s \<in> set ss")
    case True
    with IH show ?thesis by blast
  next
    case False
    then show ?thesis
      using b s Cons.prems(1,2) by (simp add: in_place_pass_untouched)
  qed
  show ?case using IH at_s by (auto simp: in_place_pass_Cons)
qed

lemma max_change_ge:
  "s < n \<Longrightarrow> \<bar>V' ! s - V ! s\<bar> \<le> max_change n V' V"
  unfolding max_change_def by (intro Max_ge) auto

lemma max_change_nonneg: "0 \<le> max_change n V' V"
  unfolding max_change_def by (intro Max_ge) auto

lemma max_change_le:
  assumes "0 \<le> c" "\<forall>s<n. \<bar>V' ! s - V ! s\<bar> \<le> c"
  shows "max_change n V' V \<le> c"
  unfolding max_change_def using assms by (subst Max_le_iff) auto

lemma max_change_contracts:
  assumes "finite_mdp env" "0 \<le> g" "g \<le> 1" "length V = nS env"
  shows "max_change (nS env)
           (in_place_pass env g [0..<nS env] (in_place_pass env g [0..<nS env] V))
           (in_place_pass env g [0..<nS env] V)
       \<le> g * max_change (nS env) (in_place_pass env g [0..<nS env] V) V"
proof -
  let ?T = "in_place_pass env g [0..<nS env]"
  let ?d = "max_change (nS env) (?T V) V"
  have d0: "0 \<le> ?d" by (rule max_change_nonneg)
  have close: "\<forall>j<nS env. \<bar>?T V ! j - V ! j\<bar> \<le> ?d" by (simp add: max_change_ge)
  have "\<forall>j\<in>set [0..<nS env]. \<bar>?T (?T V) ! j - ?T V ! j\<bar> \<le> g * ?d"
    using in_place_pass_contraction[OF assms(1,2,3) d0 _ assms(4) _ close, of "[0..<nS env]"]
      assms(4) by simp
  then have "\<forall>s<nS env. \<bar>?T (?T V) ! s - ?T V ! s\<bar> \<le> g * ?d" by simp
  moreover have "0 \<le> g * ?d" using assms(2) d0 by simp
  ultimately show ?thesis by (intro max_change_le) 
qed

lemma vi_loop_terminates_from:
  assumes "finite_mdp env" "0 \<le> g" "g \<le> 1"
    and "length V = nS env"
    and "max_change (nS env) (in_place_pass env g [0..<nS env] V) V * g ^ k < theta"
  shows "\<exists>Vold. length Vold = nS env
         \<and> vi_loop env theta g V =
             Some (Inr (in_place_pass env g [0..<nS env] Vold,
                        max_change (nS env) (in_place_pass env g [0..<nS env] Vold) Vold))
         \<and> max_change (nS env) (in_place_pass env g [0..<nS env] Vold) Vold < theta"
  using assms(4,5)
proof (induction k arbitrary: V)
  case 0
  then show ?case
    by (intro exI[of _ V]) (simp add: vi_loop.simps[of env theta g V] sweep_in_place_pass[OF assms(1)])
next
  case (Suc k)
  let ?T = "in_place_pass env g [0..<nS env]"
  let ?d = "max_change (nS env) (?T V) V"
  show ?case
  proof (cases "?d < theta")
    case True
    with Suc.prems(1) show ?thesis
      by (intro exI[of _ V])
        (simp add: vi_loop.simps[of env theta g V] sweep_in_place_pass[OF assms(1)])
  next
    case False
    have unfold: "vi_loop env theta g V = vi_loop env theta g (?T V)"
      using False Suc.prems(1)
      by (simp add: vi_loop.simps[of env theta g V] sweep_in_place_pass[OF assms(1)])
    have len: "length (?T V) = nS env" using Suc.prems(1) by simp
    have "max_change (nS env) (?T (?T V)) (?T V) \<le> g * ?d"
      by (rule max_change_contracts[OF assms(1,2,3) Suc.prems(1)])
    moreover have "0 \<le> g ^ k" using assms(2) by simp
    ultimately have "max_change (nS env) (?T (?T V)) (?T V) * g ^ k \<le> (g * ?d) * g ^ k"
      by (intro mult_right_mono)
    also have "\<dots> = ?d * g ^ Suc k" by simp
    also have "\<dots> < theta" by (rule Suc.prems(2))
    finally have small: "max_change (nS env) (?T (?T V)) (?T V) * g ^ k < theta" .
    from Suc.IH[OF len small] show ?thesis unfolding unfold .
  qed
qed

lemma small_power:
  fixes d g theta :: real
  assumes "0 \<le> d" "0 \<le> g" "g < 1" "0 < theta"
  shows "\<exists>k. d * g ^ k < theta"
proof (cases "d = 0")
  case True
  then show ?thesis using assms(4) by simp
next
  case False
  then have d: "0 < d" using assms(1) by simp
  then have "0 < theta / d" using assms(4) by simp
  from real_arch_pow_inv[OF this assms(3)] obtain k where "g ^ k < theta / d" ..
  then have "d * g ^ k < theta" using d by (simp add: pos_less_divide_eq mult.commute)
  then show ?thesis ..
qed

lemma greedy_policy_total:
  assumes "finite_mdp env" "length V = nS env"
  shows "\<exists>policy. greedy_policy env g V = Inr policy"
proof -
  let ?I = "\<lambda>(k::nat) (pol::real list list). length pol = nS env \<and> (\<forall>s<nS env. length (pol ! s) = nA env)"
  have nA: "0 < nA env" using assms(1) by (simp add: finite_mdp_def)
  have "\<exists>pol. for_each [0..<nS env] (choose_action env g V)
                 (replicate (nS env) (replicate (nA env) 0)) = Inr pol \<and> ?I (nS env) pol"
  proof (rule for_each_range_total[where I = ?I])
    show "?I 0 (replicate (nS env) (replicate (nA env) 0))" by simp
  next
    fix k pol
    assume k: "k < nS env" and I: "?I k pol"
    let ?A = "map (q_value env g V k) [0..<nA env]"
    have "?A \<noteq> []" using nA by simp
    then obtain a where a: "np_argmax ?A = Inr a" by (cases ?A) auto
    from np_argmax_spec(1)[OF a] have "a < nA env" by simp
    then have "choose_action env g V k pol = Inr (pol[k := (pol ! k)[a := 1]])"
      using I k a by (simp add: choose_action_def one_step_lookahead_q[OF assms k] set_item2_def)
    moreover have "?I (Suc k) (pol[k := (pol ! k)[a := 1]])"
      using I k by (auto simp: nth_list_update)
    ultimately show "\<exists>pol'. choose_action env g V k pol = Inr pol' \<and> ?I (Suc k) pol'"
      by blast
  qed
  then show ?thesis by (auto simp: greedy_policy_def)
qed

text \<open>
  Claim C8. For every finite MDP, every discount factor \<open>0 \<le> \<gamma> < 1\<close> and every
  tolerance \<open>\<theta> > 0\<close> the \<^verbatim>\<open>while\<close> loop of value iteration terminates, started from
  \<open>V = 0\<close>: it leaves with \<open>delta < \<theta>\<close>, where \<open>delta\<close> is the largest \<open>|new V[s] - old V[s]|\<close>
  of the last pass (\<open>Vold\<close> is the value function before that pass), and value iteration
  as a whole returns a policy with that \<open>V\<close>. (Floats are read as reals.)
\<close>

theorem value_iteration_terminates:
  assumes "finite_mdp env" "0 \<le> discount_factor" "discount_factor < 1" "0 < theta"
  shows "\<exists>V delta Vold policy.
           vi_loop env theta discount_factor (replicate (nS env) 0) = Some (Inr (V, delta))
         \<and> delta < theta
         \<and> sweep env discount_factor Vold = Inr (V, delta)
         \<and> delta = Max (insert 0 ((\<lambda>s. \<bar>V ! s - Vold ! s\<bar>) ` {..<nS env}))
         \<and> value_iteration env theta discount_factor = Some (Inr (policy, V))"
proof -
  let ?g = discount_factor
  let ?T = "in_place_pass env ?g [0..<nS env]"
  let ?V0 = "replicate (nS env) (0::real)"
  have le: "?g \<le> 1" using assms(3) by simp
  have len0: "length ?V0 = nS env" by simp
  obtain k where k: "max_change (nS env) (?T ?V0) ?V0 * ?g ^ k < theta"
    using small_power[OF max_change_nonneg assms(2,3,4)] by blast
  from vi_loop_terminates_from[OF assms(1,2) le len0 k]
  obtain Vold where Vold: "length Vold = nS env"
    "vi_loop env theta ?g ?V0 = Some (Inr (?T Vold, max_change (nS env) (?T Vold) Vold))"
    "max_change (nS env) (?T Vold) Vold < theta"
    by blast
  have lenT: "length (?T Vold) = nS env" using Vold(1) by simp
  from greedy_policy_total[OF assms(1) lenT] obtain policy
    where pol: "greedy_policy env ?g (?T Vold) = Inr policy" ..
  have "value_iteration env theta ?g = Some (Inr (policy, ?T Vold))"
    by (simp add: value_iteration_def Vold(2) pol)
  moreover have "sweep env ?g Vold = Inr (?T Vold, max_change (nS env) (?T Vold) Vold)"
    by (rule sweep_in_place_pass[OF assms(1) Vold(1)])
  moreover have "max_change (nS env) (?T Vold) Vold
      = Max (insert 0 ((\<lambda>s. \<bar>?T Vold ! s - Vold ! s\<bar>) ` {..<nS env}))"
    by (simp add: max_change_def)
  ultimately show ?thesis using Vold(2,3) by blast
qed


lemma two_state_finite_mdp: "finite_mdp two_state_env"
  by (simp add: finite_mdp_def two_state_env_def)

theorem value_iteration_terminates_witness:
  "finite_mdp two_state_env \<and> (0::real) \<le> 9 / 10 \<and> (9 / 10 :: real) < 1 \<and> (0::real) < 1 / 1000
   \<and> (\<exists>V delta Vold policy.
         vi_loop two_state_env (1 / 1000) (9 / 10) (replicate (nS two_state_env) 0)
           = Some (Inr (V, delta))
       \<and> delta < 1 / 1000
       \<and> sweep two_state_env (9 / 10) Vold = Inr (V, delta)
       \<and> delta = Max (insert 0 ((\<lambda>s. \<bar>V ! s - Vold ! s\<bar>) ` {..<nS two_state_env}))
       \<and> value_iteration two_state_env (1 / 1000) (9 / 10) = Some (Inr (policy, V)))
   \<and> vi_loop two_state_env (1 / 1000) (9 / 10) [0, 0] = Some (Inr ([1, 0], 0))"
proof -
  have h: "(0::real) \<le> 9 / 10" "(9 / 10 :: real) < 1" "(0::real) < 1 / 1000" by simp_all
  have e: "vi_loop two_state_env (1 / 1000) (9 / 10) [0, 0] = Some (Inr ([1, 0], 0))"
    by (rule two_state_vi_loop) simp_all
  show ?thesis
    by (intro conjI two_state_finite_mdp h e
        value_iteration_terminates[OF two_state_finite_mdp h])
qed

subsection \<open>The linear program of the two-state instance\<close>

lemma two_state_tensor_simps:
  "shape0 two_state_tensor = 2" "shape2 two_state_tensor = 2"
  "entry two_state_tensor 0 0 0 = 1" "entry two_state_tensor 0 (Suc 0) 0 = 0"
  "entry two_state_tensor 0 0 (Suc 0) = 0" "entry two_state_tensor 0 (Suc 0) (Suc 0) = 1"
  "entry two_state_tensor (Suc 0) 0 a = 0" "entry two_state_tensor (Suc 0) (Suc 0) 0 = 1"
  "entry two_state_tensor (Suc 0) (Suc 0) (Suc 0) = 1"
  by (simp_all add: two_state_tensor_def)

lemma zeros_12_6:
  "replicate (2 * 2 * (2 + 1)) [0, 0, 0, 0, 0, (0::real)] =
     [[0, 0, 0, 0, 0, 0], [0, 0, 0, 0, 0, 0], [0, 0, 0, 0, 0, 0], [0, 0, 0, 0, 0, 0],
      [0, 0, 0, 0, 0, 0], [0, 0, 0, 0, 0, 0], [0, 0, 0, 0, 0, 0], [0, 0, 0, 0, 0, 0],
      [0, 0, 0, 0, 0, 0], [0, 0, 0, 0, 0, 0], [0, 0, 0, 0, 0, 0], [0, 0, 0, 0, 0, 0]]"
  "replicate (2 * 2 * (2 + 1)) (0::real) = [0, 0, 0, 0, 0, 0, 0, 0, 0, 0, 0, 0]"
  "replicate (3 * 2) (0::real) = [0, 0, 0, 0, 0, 0]"
  by (simp_all add: numeral_eq_Suc)

lemma two_state_policy_rows:
  "for_each [0..<2] (policy_constraints inv_2x2 two_state_tensor [[0, 1], [1, 0]] (3 / 10))
     ([[0, 0, 0, 0, 0, 0], [0, 0, 0, 0, 0, 0], [0, 0, 0, 0, 0, 0], [0, 0, 0, 0, 0, 0],
      [0, 0, 0, 0, 0, 0], [0, 0, 0, 0, 0, 0], [0, 0, 0, 0, 0, 0], [0, 0, 0, 0, 0, 0],
      [0, 0, 0, 0, 0, 0], [0, 0, 0, 0, 0, 0], [0, 0, 0, 0, 0, 0], [0, 0, 0, 0, 0, 0]], 0)
   = Inr ([[1, - 1, 0, 0, 0, 0], [0, 0, 0, 0, 0, 0], [1, - 1, 1, 0, 0, 0], [0, 0, 0, 1, 0, 0],
      [0, 0, 0, 0, 0, 0], [0, 0, 0, 0, 0, 0], [0, 0, 0, 0, 0, 0], [0, 0, 0, 0, 0, 0],
      [0, 0, 0, 0, 0, 0], [0, 0, 0, 0, 0, 0], [0, 0, 0, 0, 0, 0], [0, 0, 0, 0, 0, 0]], 2)"
  by (simp add: upt_2 policy_constraints_def policy_constraint_rows_def constraint_coeffs_def inv_2x2_def
      two_state_tensor_simps Let_def np_dot_def set_row_prefix_def set_item2_def)


lemma two_state_bound_rows:
  "for_each [0..<2] (upper_bound_row (2 * 2 * (2 - 1)) 2 r_max)
     ([[1, - 1, 0, 0, 0, 0], [0, 0, 0, 0, 0, 0], [1, - 1, 1, 0, 0, 0], [0, 0, 0, 1, 0, 0],
      [0, 0, 0, 0, 0, 0], [0, 0, 0, 0, 0, 0], [0, 0, 0, 0, 0, 0], [0, 0, 0, 0, 0, 0],
      [0, 0, 0, 0, 0, 0], [0, 0, 0, 0, 0, 0], [0, 0, 0, 0, 0, 0], [0, 0, 0, 0, 0, 0]],
      [0, 0, 0, 0, 0, 0, 0, 0, 0, 0, 0, 0])
   = Inr ([[1, - 1, 0, 0, 0, 0], [0, 0, 0, 0, 0, 0], [1, - 1, 1, 0, 0, 0], [0, 0, 0, 1, 0, 0],
      [1, 0, 0, 0, 0, 0], [0, 1, 0, 0, 0, 0], [0, 0, 0, 0, 0, 0], [0, 0, 0, 0, 0, 0],
      [0, 0, 0, 0, 0, 0], [0, 0, 0, 0, 0, 0], [0, 0, 0, 0, 0, 0], [0, 0, 0, 0, 0, 0]],
      [0, 0, 0, 0, r_max, r_max, 0, 0, 0, 0, 0, 0])"
  "for_each [0..<2] (lower_bound_row (2 * 2 * (2 - 1)) 2)
     ([[1, - 1, 0, 0, 0, 0], [0, 0, 0, 0, 0, 0], [1, - 1, 1, 0, 0, 0], [0, 0, 0, 1, 0, 0],
      [1, 0, 0, 0, 0, 0], [0, 1, 0, 0, 0, 0], [0, 0, 0, 0, 0, 0], [0, 0, 0, 0, 0, 0],
      [0, 0, 0, 0, 0, 0], [0, 0, 0, 0, 0, 0], [0, 0, 0, 0, 0, 0], [0, 0, 0, 0, 0, 0]],
      [0, 0, 0, 0, r_max, r_max, 0, 0, 0, 0, 0, 0])
   = Inr ([[1, - 1, 0, 0, 0, 0], [0, 0, 0, 0, 0, 0], [1, - 1, 1, 0, 0, 0], [0, 0, 0, 1, 0, 0],
      [1, 0, 0, 0, 0, 0], [0, 1, 0, 0, 0, 0], [- 1, 0, 0, 0, 0, 0], [0, - 1, 0, 0, 0, 0],
      [0, 0, 0, 0, 0, 0], [0, 0, 0, 0, 0, 0], [0, 0, 0, 0, 0, 0], [0, 0, 0, 0, 0, 0]],
      [0, 0, 0, 0, r_max, r_max, 0, 0, 0, 0, 0, 0])"
  by (simp_all add: upt_2 upper_bound_row_def lower_bound_row_def set_item2_def set_item_def)

lemma two_state_slack_rows:
  "for_each [0..<2] (slack_row_first (2 * 2 * (2 - 1)) 2)
     [[1, - 1, 0, 0, 0, 0], [0, 0, 0, 0, 0, 0], [1, - 1, 1, 0, 0, 0], [0, 0, 0, 1, 0, 0],
      [1, 0, 0, 0, 0, 0], [0, 1, 0, 0, 0, 0], [- 1, 0, 0, 0, 0, 0], [0, - 1, 0, 0, 0, 0],
      [0, 0, 0, 0, 0, 0], [0, 0, 0, 0, 0, 0], [0, 0, 0, 0, 0, 0], [0, 0, 0, 0, 0, 0]]
   = Inr [[1, - 1, 0, 0, 0, 0], [0, 0, 0, 0, 0, 0], [1, - 1, 1, 0, 0, 0], [0, 0, 0, 1, 0, 0],
      [1, 0, 0, 0, 0, 0], [0, 1, 0, 0, 0, 0], [- 1, 0, 0, 0, 0, 0], [0, - 1, 0, 0, 0, 0],
      [1, 0, 0, 0, - 1, 0], [0, 1, 0, 0, 0, - 1], [0, 0, 0, 0, 0, 0], [0, 0, 0, 0, 0, 0]]"
  "for_each [0..<2] (slack_row_second (2 * 2 * (2 - 1)) 2)
     [[1, - 1, 0, 0, 0, 0], [0, 0, 0, 0, 0, 0], [1, - 1, 1, 0, 0, 0], [0, 0, 0, 1, 0, 0],
      [1, 0, 0, 0, 0, 0], [0, 1, 0, 0, 0, 0], [- 1, 0, 0, 0, 0, 0], [0, - 1, 0, 0, 0, 0],
      [1, 0, 0, 0, - 1, 0], [0, 1, 0, 0, 0, - 1], [0, 0, 0, 0, 0, 0], [0, 0, 0, 0, 0, 0]]
   = Inr [[1, - 1, 0, 0, 0, 0], [0, 0, 0, 0, 0, 0], [1, - 1, 1, 0, 0, 0], [0, 0, 0, 1, 0, 0],
      [1, 0, 0, 0, 0, 0], [0, 1, 0, 0, 0, 0], [- 1, 0, 0, 0, 0, 0], [0, - 1, 0, 0, 0, 0],
      [1, 0, 0, 0, - 1, 0], [0, 1, 0, 0, 0, - 1], [1, 0, 0, 0, - 1, 0], [0, 1, 0, 0, 0, - 1]]"
  by (simp_all add: upt_2 slack_row_first_def slack_row_second_def set_item2_def)

lemma two_state_objective:
  "for_each [0..<2] (objective 2 l1) [0, 0, 0, 0, 0, 0] = Inr [0, 0, - 1, - 1, l1, l1]"
  by (simp add: upt_2 objective_def set_slice_def upt_rec[of _ "numeral _"] upt_rec[of _ "Suc _"])

lemma two_state_lp:
  "linear_irl_lp inv_2x2 two_state_tensor [[0, 1], [1, 0]] (3 / 10) l1 r_max =
     Inr (([0, 0, - 1, - 1, l1, l1],
           [[1, - 1, 0, 0, 0, 0], [0, 0, 0, 0, 0, 0], [1, - 1, 1, 0, 0, 0],
            [0, 0, 0, 1, 0, 0], [1, 0, 0, 0, 0, 0], [0, 1, 0, 0, 0, 0],
            [- 1, 0, 0, 0, 0, 0], [0, - 1, 0, 0, 0, 0], [1, 0, 0, 0, - 1, 0],
            [0, 1, 0, 0, 0, - 1], [1, 0, 0, 0, - 1, 0], [0, 1, 0, 0, 0, - 1]],
           [0, 0, 0, 0, r_max, r_max, 0, 0, 0, 0, 0, 0]),
          2)"
  unfolding linear_irl_lp_def Let_def two_state_tensor_simps zeros_12_6
    two_state_policy_rows sum.case prod.case two_state_bound_rows two_state_slack_rows
    two_state_objective
  by (rule refl)

subsection \<open>The formulator and its solver\<close>

lemma for_each_cong:
  "(\<And>i. i \<in> set xs \<Longrightarrow> body1 i = body2 i) \<Longrightarrow> for_each xs body1 s = for_each xs body2 s"
  by (induction xs arbitrary: s) (auto split: sum.splits)

text \<open>
  Claim C10. Two policies that both have a row for every state and whose rows have the
  same \<^verbatim>\<open>np.argmax\<close> at every state give the same linear program and, the solver being
  a function of the program, the same result of \<^verbatim>\<open>linear_irl\<close> (reward or exception).
\<close>

theorem linear_irl_argmax_only:
  assumes "\<forall>i<shape0 trans_probs. i < length policy1 \<and> i < length policy2
             \<and> np_argmax (policy1 ! i) = np_argmax (policy2 ! i)"
  shows "linear_irl_lp linalg_inv trans_probs policy1 gamma l1 r_max
           = linear_irl_lp linalg_inv trans_probs policy2 gamma l1 r_max
       \<and> linear_irl linalg_inv lp_solver trans_probs policy1 gamma l1 r_max
           = linear_irl linalg_inv lp_solver trans_probs policy2 gamma l1 r_max"
proof -
  have body: "policy_constraints linalg_inv trans_probs policy1 gamma i
            = policy_constraints linalg_inv trans_probs policy2 gamma i"
    if "i \<in> set [0..<shape0 trans_probs]" for i
  proof -
    from that assms have "i < length policy1" "i < length policy2"
      "np_argmax (policy1 ! i) = np_argmax (policy2 ! i)" by auto
    then show ?thesis by (simp add: policy_constraints_def fun_eq_iff)
  qed
  have loop: "for_each [0..<shape0 trans_probs]
                (policy_constraints linalg_inv trans_probs policy1 gamma) s
            = for_each [0..<shape0 trans_probs]
                (policy_constraints linalg_inv trans_probs policy2 gamma) s" for s
    by (rule for_each_cong) (rule body)
  have lp: "linear_irl_lp linalg_inv trans_probs policy1 gamma l1 r_max
          = linear_irl_lp linalg_inv trans_probs policy2 gamma l1 r_max"
    unfolding linear_irl_lp_def Let_def loop ..
  then show ?thesis by (simp add: linear_irl_def)
qed

lemma two_state_other_policy:
  "\<forall>i<shape0 two_state_tensor. i < length [[0, 1], [1, 0 :: real]]
      \<and> i < length [[1 / 5, 4 / 5], [3 / 5, 2 / 5 :: real]]
      \<and> np_argmax ([[0, 1], [1, 0]] ! i) = np_argmax ([[1 / 5, 4 / 5], [3 / 5, 2 / 5]] ! i)"
  by (simp add: two_state_tensor_simps numeral_2_eq_2 less_Suc_eq)

theorem linear_irl_argmax_only_witness:
  "linear_irl_lp inv_2x2 two_state_tensor [[0, 1], [1, 0]] (3 / 10) 10 5
     = linear_irl_lp inv_2x2 two_state_tensor [[1 / 5, 4 / 5], [3 / 5, 2 / 5]] (3 / 10) 10 5
   \<and> linear_irl inv_2x2 (\<lambda>c A b. Some [0, 1, 1, 0, 0, 1]) two_state_tensor
        [[0, 1], [1, 0]] (3 / 10) 10 5
     = linear_irl inv_2x2 (\<lambda>c A b. Some [0, 1, 1, 0, 0, 1]) two_state_tensor
        [[1 / 5, 4 / 5], [3 / 5, 2 / 5]] (3 / 10) 10 5
   \<and> linear_irl inv_2x2 (\<lambda>c A b. Some [0, 1, 1, 0, 0, 1]) two_state_tensor
        [[1 / 5, 4 / 5], [3 / 5, 2 / 5]] (3 / 10) 10 5 = Inr [Finite 0, Finite 5]"
proof -
  note t = linear_irl_argmax_only[OF two_state_other_policy,
      of inv_2x2 "3 / 10" 10 5 "\<lambda>c A b. Some [0, 1, 1, 0, 0, 1]"]
  have "linear_irl inv_2x2 (\<lambda>c A b. Some [0, 1, 1, 0, 0, 1]) two_state_tensor
        [[0, 1], [1, 0]] (3 / 10) 10 5 = Inr [Finite 0, Finite 5]"
    by (simp add: linear_irl_def two_state_lp two_state_tensor_simps
        normalise_times_def normalise_def true_divide_def)
  with t show ?thesis by simp
qed

text \<open>
  Claim C7, amended. When the solver reports the program infeasible, so that
  \<^verbatim>\<open>sol['x']\<close> is \<^verbatim>\<open>None\<close>, \<^verbatim>\<open>linear_irl\<close> returns no reward vector: it fails with the
  \<^verbatim>\<open>TypeError\<close> of subscripting \<^verbatim>\<open>None\<close>, an exception outside the error taxonomy, and
  not with \<open>IRLInfeasibleError\<close>.
\<close>

theorem linear_irl_infeasible_type_error:
  assumes "linear_irl_lp linalg_inv trans_probs policy gamma l1 r_max = Inr ((c, A, b), k)"
    and "lp_solver c A b = None"
  shows "linear_irl linalg_inv lp_solver trans_probs policy gamma l1 r_max = Inl TypeError"
  using assms by (simp add: linear_irl_def)

lemma feasible_row:
  "feasible A b x \<Longrightarrow> r < length A \<Longrightarrow> length x = length (A ! r) \<and> row_dot (A ! r) x \<le> b ! r"
  by (simp add: feasible_def list_all_iff)

lemma upt_6: "[0..<6] = [0, 1, 2, 3, 4, 5]"
  by (simp add: upt_rec)

lemma two_state_infeasible:
  assumes "r_max < 0"
  shows "\<not> feasible
     [[1, - 1, 0, 0, 0, 0], [0, 0, 0, 0, 0, 0], [1, - 1, 1, 0, 0, 0],
      [0, 0, 0, 1, 0, 0], [1, 0, 0, 0, 0, 0], [0, 1, 0, 0, 0, 0],
      [- 1, 0, 0, 0, 0, 0], [0, - 1, 0, 0, 0, 0], [1, 0, 0, 0, - 1, 0],
      [0, 1, 0, 0, 0, - 1], [1, 0, 0, 0, - 1, 0], [0, 1, 0, 0, 0, - 1]]
     [0, 0, 0, 0, r_max, r_max, 0, 0, 0, 0, 0, 0] x"
proof
  let ?A = "[[1, - 1, 0, 0, 0, 0], [0, 0, 0, 0, 0, 0], [1, - 1, 1, 0, 0, 0],
      [0, 0, 0, 1, 0, 0], [1, 0, 0, 0, 0, 0], [0, 1, 0, 0, 0, 0],
      [- 1, 0, 0, 0, 0, 0], [0, - 1, 0, 0, 0, 0], [1, 0, 0, 0, - 1, 0],
      [0, 1, 0, 0, 0, - 1], [1, 0, 0, 0, - 1, 0], [0, 1, 0, 0, 0, - 1 :: real]]"
  let ?b = "[0, 0, 0, 0, r_max, r_max, 0, 0, 0, 0, 0, 0]"
  assume f: "feasible ?A ?b x"
  from feasible_row[OF f, of 4] have "x ! 0 \<le> r_max"
    by (simp add: row_dot_def upt_6)
  moreover from feasible_row[OF f, of 6] have "- x ! 0 \<le> 0"
    by (simp add: row_dot_def upt_6)
  ultimately show False using assms by simp
qed


theorem linear_irl_infeasible_type_error_witness:
  "linear_irl_lp inv_2x2 two_state_tensor [[0, 1], [1, 0]] (3 / 10) 10 (- 1) =
     Inr (([0, 0, - 1, - 1, 10, 10],
     [[1, - 1, 0, 0, 0, 0], [0, 0, 0, 0, 0, 0], [1, - 1, 1, 0, 0, 0],
      [0, 0, 0, 1, 0, 0], [1, 0, 0, 0, 0, 0], [0, 1, 0, 0, 0, 0],
      [- 1, 0, 0, 0, 0, 0], [0, - 1, 0, 0, 0, 0], [1, 0, 0, 0, - 1, 0],
      [0, 1, 0, 0, 0, - 1], [1, 0, 0, 0, - 1, 0], [0, 1, 0, 0, 0, - 1]],
     [0, 0, 0, 0, - 1, - 1, 0, 0, 0, 0, 0, 0]), 2)
   \<and> linear_irl inv_2x2 (\<lambda>c A b. None) two_state_tensor [[0, 1], [1, 0]] (3 / 10) 10 (- 1)
       = Inl TypeError"
proof -
  have n: "(\<lambda>c A b. None :: real list option) [0, 0, - 1, - 1, 10, 10]
     [[1, - 1, 0, 0, 0, 0], [0, 0, 0, 0, 0, 0], [1, - 1, 1, 0, 0, 0],
      [0, 0, 0, 1, 0, 0], [1, 0, 0, 0, 0, 0], [0, 1, 0, 0, 0, 0],
      [- 1, 0, 0, 0, 0, 0], [0, - 1, 0, 0, 0, 0], [1, 0, 0, 0, - 1, 0],
      [0, 1, 0, 0, 0, - 1], [1, 0, 0, 0, - 1, 0], [0, 1, 0, 0, 0, - 1]]
     [0, 0, 0, 0, - 1, - 1, 0, 0, 0, 0, 0, 0] = None" by simp
  show ?thesis
    by (intro conjI two_state_lp linear_irl_infeasible_type_error[OF two_state_lp n])
qed

text \<open>
  Claim C7, as stated, fails. With \<open>r_max = -1\<close> the program built for the two-state
  instance has no feasible point (\<open>R\<^sub>0 \<le> -1\<close> and \<open>-R\<^sub>0 \<le> 0\<close>); a solver that reports
  it makes \<^verbatim>\<open>linear_irl\<close> fail with \<^verbatim>\<open>TypeError\<close>, not with \<open>IRLInfeasibleError\<close>.
\<close>

theorem linear_irl_infeasible_counterexample:
  "linear_irl_lp inv_2x2 two_state_tensor [[0, 1], [1, 0]] (3 / 10) 10 (- 1) =
     Inr (([0, 0, - 1, - 1, 10, 10],
     [[1, - 1, 0, 0, 0, 0], [0, 0, 0, 0, 0, 0], [1, - 1, 1, 0, 0, 0],
      [0, 0, 0, 1, 0, 0], [1, 0, 0, 0, 0, 0], [0, 1, 0, 0, 0, 0],
      [- 1, 0, 0, 0, 0, 0], [0, - 1, 0, 0, 0, 0], [1, 0, 0, 0, - 1, 0],
      [0, 1, 0, 0, 0, - 1], [1, 0, 0, 0, - 1, 0], [0, 1, 0, 0, 0, - 1]],
     [0, 0, 0, 0, - 1, - 1, 0, 0, 0, 0, 0, 0]), 2)
   \<and> (\<nexists>x. feasible
     [[1, - 1, 0, 0, 0, 0], [0, 0, 0, 0, 0, 0], [1, - 1, 1, 0, 0, 0],
      [0, 0, 0, 1, 0, 0], [1, 0, 0, 0, 0, 0], [0, 1, 0, 0, 0, 0],
      [- 1, 0, 0, 0, 0, 0], [0, - 1, 0, 0, 0, 0], [1, 0, 0, 0, - 1, 0],
      [0, 1, 0, 0, 0, - 1], [1, 0, 0, 0, - 1, 0], [0, 1, 0, 0, 0, - 1]]
     [0, 0, 0, 0, - 1, - 1, 0, 0, 0, 0, 0, 0] x)
   \<and> linear_irl inv_2x2 (\<lambda>c A b. None) two_state_tensor [[0, 1], [1, 0]] (3 / 10) 10 (- 1)
       = Inl TypeError
   \<and> linear_irl inv_2x2 (\<lambda>c A b. None) two_state_tensor [[0, 1], [1, 0]] (3 / 10) 10 (- 1)
       \<noteq> Inl IRLInfeasibleError"
proof -
  have i: "\<nexists>x. feasible
     [[1, - 1, 0, 0, 0, 0], [0, 0, 0, 0, 0, 0], [1, - 1, 1, 0, 0, 0],
      [0, 0, 0, 1, 0, 0], [1, 0, 0, 0, 0, 0], [0, 1, 0, 0, 0, 0],
      [- 1, 0, 0, 0, 0, 0], [0, - 1, 0, 0, 0, 0], [1, 0, 0, 0, - 1, 0],
      [0, 1, 0, 0, 0, - 1], [1, 0, 0, 0, - 1, 0], [0, 1, 0, 0, 0, - 1]]
     [0, 0, 0, 0, - 1, - 1, 0, 0, 0, 0, 0, 0] x"
    using two_state_infeasible[of "- 1"] by simp
  have e: "linear_irl inv_2x2 (\<lambda>c A b. None) two_state_tensor [[0, 1], [1, 0]] (3 / 10) 10 (- 1)
       = Inl TypeError"
    by (simp add: linear_irl_def two_state_lp)
  have d: "linear_irl inv_2x2 (\<lambda>c A b. None) two_state_tensor [[0, 1], [1, 0]] (3 / 10) 10 (- 1)
       \<noteq> Inl IRLInfeasibleError"
    by (simp add: e)
  show ?thesis by (intro conjI two_state_lp i e d)
qed

subsection \<open>The orchestrator\<close>

lemma two_state_read_environment:
  "read_environment two_state_env = Inr (entry two_state_tensor, [0, 0])"
proof -
  have "read_environment two_state_env
      = Inr (\<lambda>s s' a. if s = Suc 0 \<and> s' = Suc 0 \<and> a = Suc 0 then 1
                else if s = Suc 0 \<and> s' = Suc 0 \<and> a = 0 then 1
                else if s = 0 \<and> s' = Suc 0 \<and> a = Suc 0 then 1
                else if s = 0 \<and> s' = 0 \<and> a = 0 then 1 else 0, [0, 0])"
    by (simp add: read_environment_def read_transition_def two_state_dims upt_2
        two_state_env_def[THEN arg_cong[of _ _ P]] numeral_2_eq_2)
  moreover have "(\<lambda>s s' a. if s = Suc 0 \<and> s' = Suc 0 \<and> a = Suc 0 then (1::real)
                else if s = Suc 0 \<and> s' = Suc 0 \<and> a = 0 then 1
                else if s = 0 \<and> s' = Suc 0 \<and> a = Suc 0 then 1
                else if s = 0 \<and> s' = 0 \<and> a = 0 then 1 else 0) = entry two_state_tensor"
    by (auto simp: two_state_tensor_def fun_eq_iff)
  ultimately show ?thesis by simp
qed

lemma two_state_tensor_eq:
  "\<lparr>shape0 = nS two_state_env, shape2 = nA two_state_env, entry = entry two_state_tensor\<rparr>
     = two_state_tensor"
  by (simp add: two_state_dims two_state_tensor_def)

lemma two_state_irl:
  assumes "lp_solver [0, 0, - 1, - 1, 10, 10]
     [[1, - 1, 0, 0, 0, 0], [0, 0, 0, 0, 0, 0], [1, - 1, 1, 0, 0, 0],
      [0, 0, 0, 1, 0, 0], [1, 0, 0, 0, 0, 0], [0, 1, 0, 0, 0, 0],
      [- 1, 0, 0, 0, 0, 0], [0, - 1, 0, 0, 0, 0], [1, 0, 0, 0, - 1, 0],
      [0, 1, 0, 0, 0, - 1], [1, 0, 0, 0, - 1, 0], [0, 1, 0, 0, 0, - 1]]
     [0, 0, 0, 0, 5, 5, 0, 0, 0, 0, 0, 0] = Some [x0, x1, x2, x3, x4, x5]"
    and "x0 < x1"
  shows "irl inv_2x2 lp_solver two_state_env (3 / 10) 10 5
       = Some (Inr ([0, 0], [1, 0], [Finite 0, Finite 5], [1, 0]))"
proof -
  have vi: "value_iteration two_state_env (1 / 1000) (3 / 10) = Some (Inr ([[0, 1], [1, 0]], [1, 0]))"
    "value_iteration two_state_env (1 / 1000) (9 / 10) = Some (Inr ([[0, 1], [1, 0]], [1, 0]))"
    by (rule two_state_value_iteration; simp)+
  have n: "normalise_times CvxoptMatrix [x0, x1] 5 = Inr [Finite 0, Finite 5]"
    using assms(2) by (simp add: normalise_times_def normalise_def true_divide_def)
  have l: "linear_irl inv_2x2 lp_solver two_state_tensor [[0, 1], [1, 0]] (3 / 10) 10 5
         = Inr [Finite 0, Finite 5]"
    by (simp add: linear_irl_def two_state_lp assms(1) two_state_tensor_simps n)
  show ?thesis
    by (simp add: irl_def two_state_read_environment vi two_state_tensor_eq l)
qed


lemma two_state_irl_reversed:
  "irl inv_2x2 (\<lambda>c A b. Some [1, 0, 0, 0, 1, 0]) two_state_env (3 / 10) 10 5
       = Some (Inr ([0, 0], [1, 0], [Finite 5, Finite 0], [1, 0]))"
proof -
  have vi: "value_iteration two_state_env (1 / 1000) (3 / 10) = Some (Inr ([[0, 1], [1, 0]], [1, 0]))"
    "value_iteration two_state_env (1 / 1000) (9 / 10) = Some (Inr ([[0, 1], [1, 0]], [1, 0]))"
    by (rule two_state_value_iteration; simp)+
  have l: "linear_irl inv_2x2 (\<lambda>c A b. Some [1, 0, 0, 0, 1, 0]) two_state_tensor
             [[0, 1], [1, 0]] (3 / 10) 10 5 = Inr [Finite 5, Finite 0]"
    by (simp add: linear_irl_def two_state_lp two_state_tensor_simps
        normalise_times_def normalise_def true_divide_def)
  show ?thesis
    by (simp add: irl_def two_state_read_environment vi two_state_tensor_eq l)
qed

text \<open>
  Claim C5 does not hold of the code. The second call of the solver is
  \<^verbatim>\<open>value_iteration(env)\<close>: it is given the environment with its original rewards and the
  default discount factor \<open>0.9\<close>, and \<^verbatim>\<open>recovered_rewards\<close> is not an argument of it. So
  the array plotted as "Recovered Value" is the value function of the original
  environment, whatever reward was recovered.
\<close>

theorem irl_recovered_values_of_original_env:
  assumes "irl linalg_inv lp_solver env gamma l1 r_max
             = Some (Inr (rewards, values, recovered_rewards, recovered_values))"
  shows "\<exists>policy. value_iteration env (1 / 1000) (9 / 10) = Some (Inr (policy, recovered_values))"
  using assms
  by (auto simp: irl_def split: sum.splits option.splits prod.splits)

theorem irl_recovered_values_of_original_env_witness:
  "irl inv_2x2 (\<lambda>c A b. Some [0, 1, 0, 0, 0, 1]) two_state_env (3 / 10) 10 5
     = Some (Inr ([0, 0], [1, 0], [Finite 0, Finite 5], [1, 0]))
   \<and> irl inv_2x2 (\<lambda>c A b. Some [1, 0, 0, 0, 1, 0]) two_state_env (3 / 10) 10 5
     = Some (Inr ([0, 0], [1, 0], [Finite 5, Finite 0], [1, 0]))
   \<and> (\<exists>policy. value_iteration two_state_env (1 / 1000) (9 / 10) = Some (Inr (policy, [1, 0])))"
proof -
  have a: "irl inv_2x2 (\<lambda>c A b. Some [0, 1, 0, 0, 0, 1]) two_state_env (3 / 10) 10 5
     = Some (Inr ([0, 0], [1, 0], [Finite 0, Finite 5], [1, 0]))"
    by (rule two_state_irl[where ?x0.0 = 0 and ?x1.0 = 1]) simp_all
  show ?thesis
    by (intro conjI a two_state_irl_reversed irl_recovered_values_of_original_env[OF a])
qed

subsection \<open>The rows written by the loops of the formulator\<close>

lemma constraint_coeffs_length [simp]:
  "length (constraint_coeffs tp tinv i a_opt a) = shape0 tp"
  by (simp add: constraint_coeffs_def np_dot_def)

lemma skip_index_mono:
  "a < k \<Longrightarrow> a \<noteq> a_opt \<Longrightarrow> k \<noteq> a_opt \<Longrightarrow> skip_index a_opt a < skip_index a_opt k"
  by (auto simp: skip_index_def)

lemma skip_index_less:
  "a < m \<Longrightarrow> a \<noteq> a_opt \<Longrightarrow> a_opt < m \<Longrightarrow> skip_index a_opt a < m - 1"
  by (auto simp: skip_index_def)

lemma block_le: "i < (k::nat) \<Longrightarrow> i * w + w \<le> k * w"
proof -
  assume "i < k"
  then have "Suc i * w \<le> k * w" by (intro mult_le_mono1) simp
  then show ?thesis by (simp add: add.commute)
qed

lemma policy_constraint_rows_step:
  assumes "shape0 tp = n" "shape2 tp = m" "a \<noteq> a_opt" "i < n"
    and "r1 = i * (m - 1) + cnt" "r2 = n * (m - 1) + i * (m - 1) + cnt"
    and "r1 < length A" "r2 < length A" "r1 \<noteq> r2"
    and "length (A ! r1) = 3 * n" "length (A ! r2) = 3 * n"
  shows "policy_constraint_rows tp tinv i a_opt a (A, cnt) =
           Inr (A[r1 := constraint_coeffs tp tinv i a_opt a @ drop n (A ! r1),
                  r2 := (constraint_coeffs tp tinv i a_opt a @ drop n (A ! r2))[n + i := 1]],
                cnt + 1)"
  using assms
  by (simp add: policy_constraint_rows_def Let_def set_row_prefix_def set_item2_def
      nth_list_update)

lemma policy_rows_loop:
  assumes tp: "shape0 tp = n" "shape2 tp = m"
    and a_opt: "a_opt < m" and i: "i < n"
    and o: "o1 = i * (m - 1)" "o2 = n * (m - 1) + i * (m - 1)"
    and fit: "o1 + (m - 1) \<le> o2" "o2 + (m - 1) \<le> length A"
    and rows: "\<forall>r<length A. length (A ! r) = 3 * n"
  shows "\<exists>A'. for_each [0..<m] (policy_constraint_rows tp tinv i a_opt) (A, 0) = Inr (A', m - 1)
     \<and> length A' = length A \<and> (\<forall>r<length A. length (A' ! r) = 3 * n)
     \<and> (\<forall>a<m. a \<noteq> a_opt \<longrightarrow>
           A' ! (o1 + skip_index a_opt a)
             = constraint_coeffs tp tinv i a_opt a @ drop n (A ! (o1 + skip_index a_opt a))
         \<and> A' ! (o2 + skip_index a_opt a)
             = (constraint_coeffs tp tinv i a_opt a
                  @ drop n (A ! (o2 + skip_index a_opt a)))[n + i := 1])
     \<and> (\<forall>r<length A. (r < o1 \<or> o1 + (m - 1) \<le> r) \<and> (r < o2 \<or> o2 + (m - 1) \<le> r)
           \<longrightarrow> A' ! r = A ! r)"
proof -
  let ?co = "constraint_coeffs tp tinv i a_opt"
  let ?sk = "skip_index a_opt"
  let ?J = "\<lambda>k (st :: real list list \<times> nat).
     snd st = (if k \<le> a_opt then k else k - 1)
     \<and> length (fst st) = length A \<and> (\<forall>r<length A. length (fst st ! r) = 3 * n)
     \<and> (\<forall>a<k. a \<noteq> a_opt \<longrightarrow>
           fst st ! (o1 + ?sk a) = ?co a @ drop n (A ! (o1 + ?sk a))
         \<and> fst st ! (o2 + ?sk a) = (?co a @ drop n (A ! (o2 + ?sk a)))[n + i := 1])
     \<and> (\<forall>r<length A. (r < o1 \<or> o1 + snd st \<le> r) \<and> (r < o2 \<or> o2 + snd st \<le> r)
           \<longrightarrow> fst st ! r = A ! r)"
  have "\<exists>st. for_each [0..<m] (policy_constraint_rows tp tinv i a_opt) (A, 0) = Inr st \<and> ?J m st"
  proof (rule for_each_range_total[where I = ?J])
    show "?J 0 (A, 0)" using rows by simp
  next
    fix k st
    assume k: "k < m" and J: "?J k st"
    obtain Ak cnt where st: "st = (Ak, cnt)" by (cases st)
    from J have cnt: "cnt = (if k \<le> a_opt then k else k - 1)"
      and len: "length Ak = length A"
      and rl: "\<forall>r<length A. length (Ak ! r) = 3 * n"
      and wr: "\<forall>a<k. a \<noteq> a_opt \<longrightarrow>
           Ak ! (o1 + ?sk a) = ?co a @ drop n (A ! (o1 + ?sk a))
         \<and> Ak ! (o2 + ?sk a) = (?co a @ drop n (A ! (o2 + ?sk a)))[n + i := 1]"
      and same: "\<forall>r<length A. (r < o1 \<or> o1 + cnt \<le> r) \<and> (r < o2 \<or> o2 + cnt \<le> r)
           \<longrightarrow> Ak ! r = A ! r"
      by (simp_all add: st)
    show "\<exists>st'. policy_constraint_rows tp tinv i a_opt k st = Inr st' \<and> ?J (Suc k) st'"
    proof (cases "k = a_opt")
      case True
      have "policy_constraint_rows tp tinv i a_opt k st = Inr (Ak, cnt)"
        using True by (simp add: policy_constraint_rows_def st Let_def)
      moreover have c0: "cnt = (if Suc k \<le> a_opt then Suc k else Suc k - 1)"
        using True cnt by simp
      moreover have "\<forall>a<Suc k. a \<noteq> a_opt \<longrightarrow>
           Ak ! (o1 + ?sk a) = ?co a @ drop n (A ! (o1 + ?sk a))
         \<and> Ak ! (o2 + ?sk a) = (?co a @ drop n (A ! (o2 + ?sk a)))[n + i := 1]"
      proof (intro allI impI)
        fix a assume a: "a < Suc k" "a \<noteq> a_opt"
        then have "a < k" using True by simp
        with wr a(2) show "Ak ! (o1 + ?sk a) = ?co a @ drop n (A ! (o1 + ?sk a))
         \<and> Ak ! (o2 + ?sk a) = (?co a @ drop n (A ! (o2 + ?sk a)))[n + i := 1]"
          by blast
      qed
      ultimately show ?thesis
        using len rl same unfolding fst_conv snd_conv by (intro exI[of _ "(Ak, cnt)"]) simp
    next
      case False
      have sk: "cnt = ?sk k" using cnt False by (auto simp: skip_index_def)
      have cm: "cnt < m - 1" unfolding sk by (rule skip_index_less[OF k False a_opt])
      let ?r1 = "o1 + cnt" and ?r2 = "o2 + cnt"
      have r1: "?r1 < length A" "?r1 < o2" and r2: "?r2 < length A" and ne: "?r1 \<noteq> ?r2"
        using cm fit by simp_all
      have A1: "Ak ! ?r1 = A ! ?r1" using same r1 by simp
      have A2: "Ak ! ?r2 = A ! ?r2" using same r2 r1(2) by simp
      let ?A' = "Ak[?r1 := ?co k @ drop n (Ak ! ?r1),
                    ?r2 := (?co k @ drop n (Ak ! ?r2))[n + i := 1]]"
      have step: "policy_constraint_rows tp tinv i a_opt k st = Inr (?A', cnt + 1)"
        unfolding st
        by (rule policy_constraint_rows_step[OF tp False i])
          (use o r1 r2 ne len rl in \<open>simp_all\<close>)
      have c': "cnt + 1 = (if Suc k \<le> a_opt then Suc k else Suc k - 1)"
        using cnt False by auto
      have l': "length ?A' = length A" using len by simp
      have rl': "\<forall>r<length A. length (?A' ! r) = 3 * n"
      proof (intro allI impI)
        fix r assume r: "r < length A"
        have "length (Ak ! r) = 3 * n" "length (Ak ! ?r1) = 3 * n" "length (Ak ! ?r2) = 3 * n"
          using rl r r1(1) r2 by simp_all
        moreover have "length (?co k) = n" using tp(1) by simp
        moreover have "r < length Ak" "?r1 < length Ak" "?r2 < length Ak"
          using r r1(1) r2 len by simp_all
        ultimately show "length (?A' ! r) = 3 * n"
          by (cases "r = ?r2"; cases "r = ?r1") (simp_all add: nth_list_update)
      qed
      have wr': "\<forall>a<Suc k. a \<noteq> a_opt \<longrightarrow>
           ?A' ! (o1 + ?sk a) = ?co a @ drop n (A ! (o1 + ?sk a))
         \<and> ?A' ! (o2 + ?sk a) = (?co a @ drop n (A ! (o2 + ?sk a)))[n + i := 1]"
      proof (intro allI impI)
        fix a assume a: "a < Suc k" "a \<noteq> a_opt"
        show "?A' ! (o1 + ?sk a) = ?co a @ drop n (A ! (o1 + ?sk a))
         \<and> ?A' ! (o2 + ?sk a) = (?co a @ drop n (A ! (o2 + ?sk a)))[n + i := 1]"
        proof (cases "a = k")
          case True
          then show ?thesis
            using sk[symmetric] A1 A2 r1 r2 ne len by (simp add: nth_list_update)
        next
          case False
          then have ak: "a < k" using a(1) by simp
          from skip_index_mono[OF ak a(2) \<open>k \<noteq> a_opt\<close>] have lt: "?sk a < cnt"
            by (simp add: sk)
          then have "o1 + ?sk a \<noteq> ?r1" "o1 + ?sk a \<noteq> ?r2" "o2 + ?sk a \<noteq> ?r1"
            "o2 + ?sk a \<noteq> ?r2"
            using r1(2) cm fit by simp_all
          then show ?thesis using wr ak a(2) by (simp add: nth_list_update)
        qed
      qed
      have same': "\<forall>r<length A. (r < o1 \<or> o1 + (cnt + 1) \<le> r) \<and> (r < o2 \<or> o2 + (cnt + 1) \<le> r)
           \<longrightarrow> ?A' ! r = A ! r"
      proof (intro allI impI)
        fix r
        assume r: "r < length A"
          and c: "(r < o1 \<or> o1 + (cnt + 1) \<le> r) \<and> (r < o2 \<or> o2 + (cnt + 1) \<le> r)"
        from c r1(2) have "r \<noteq> ?r1" "r \<noteq> ?r2" by auto
        moreover from c have "(r < o1 \<or> o1 + cnt \<le> r) \<and> (r < o2 \<or> o2 + cnt \<le> r)" by auto
        ultimately show "?A' ! r = A ! r" using same r by simp
      qed
      show ?thesis
        using step c' l' rl' wr' same' unfolding fst_conv snd_conv
        by (intro exI[of _ "(?A', cnt + 1)"]) simp
    qed
  qed
  then obtain st where st: "for_each [0..<m] (policy_constraint_rows tp tinv i a_opt) (A, 0) = Inr st"
    and J: "?J m st" by blast
  obtain A' cnt where s: "st = (A', cnt)" by (cases st)
  have c: "cnt = m - 1" using J a_opt by (simp add: s)
  from J have parts: "length A' = length A" "\<forall>r<length A. length (A' ! r) = 3 * n"
    "\<forall>a<m. a \<noteq> a_opt \<longrightarrow>
           A' ! (o1 + ?sk a) = ?co a @ drop n (A ! (o1 + ?sk a))
         \<and> A' ! (o2 + ?sk a) = (?co a @ drop n (A ! (o2 + ?sk a)))[n + i := 1]"
    "\<forall>r<length A. (r < o1 \<or> o1 + (m - 1) \<le> r) \<and> (r < o2 \<or> o2 + (m - 1) \<le> r)
           \<longrightarrow> A' ! r = A ! r"
    unfolding s fst_conv snd_conv c by blast+
  show ?thesis
    using st parts unfolding s c by (intro exI[of _ A'] conjI)
qed

lemma policy_constraints_loop:
  assumes tp: "shape0 tp = n" "shape2 tp = m"
    and H: "\<forall>i<n. i < length policy \<and> np_argmax (policy ! i) = Inr (aopt i) \<and> aopt i < m
              \<and> linalg_inv n (\<lambda>r c. (if r = c then 1 else 0) - gamma * entry tp r c (aopt i))
                  = Inr (tinv i)"
    and R: "2 * (n * (m - 1)) \<le> R"
  shows "\<exists>A'. for_each [0..<n] (policy_constraints linalg_inv tp policy gamma)
                 (replicate R (replicate (3 * n) 0), 0) = Inr (A', n)
     \<and> length A' = R \<and> (\<forall>r<R. length (A' ! r) = 3 * n)
     \<and> (\<forall>i<n. \<forall>a<m. a \<noteq> aopt i \<longrightarrow>
           A' ! (i * (m - 1) + skip_index (aopt i) a)
             = constraint_coeffs tp (tinv i) i (aopt i) a @ replicate (2 * n) 0
         \<and> A' ! (n * (m - 1) + i * (m - 1) + skip_index (aopt i) a)
             = (constraint_coeffs tp (tinv i) i (aopt i) a @ replicate (2 * n) 0)[n + i := 1])
     \<and> (\<forall>r<R. 2 * (n * (m - 1)) \<le> r \<longrightarrow> A' ! r = replicate (3 * n) 0)"
proof -
  define w where "w = m - 1"
  let ?Z = "replicate (3 * n) (0::real)"
  let ?co = "\<lambda>i a. constraint_coeffs tp (tinv i) i (aopt i) a"
  let ?sk = "\<lambda>i a. skip_index (aopt i) a"
  let ?K = "\<lambda>k (st :: real list list \<times> nat).
     snd st = k \<and> length (fst st) = R \<and> (\<forall>r<R. length (fst st ! r) = 3 * n)
     \<and> (\<forall>i<k. \<forall>a<m. a \<noteq> aopt i \<longrightarrow>
           fst st ! (i * w + ?sk i a) = ?co i a @ replicate (2 * n) 0
         \<and> fst st ! (n * w + i * w + ?sk i a) = (?co i a @ replicate (2 * n) 0)[n + i := 1])
     \<and> (\<forall>r<R. (k * w \<le> r \<and> r < n * w) \<or> n * w + k * w \<le> r \<longrightarrow> fst st ! r = ?Z)"
  have Rw: "n * w + n * w \<le> R" using R by (simp add: w_def)
  have "\<exists>st. for_each [0..<n] (policy_constraints linalg_inv tp policy gamma)
                 (replicate R ?Z, 0) = Inr st \<and> ?K n st"
  proof (rule for_each_range_total[where I = ?K])
    show "?K 0 (replicate R ?Z, 0)" by simp
  next
    fix k st
    assume k: "k < n" and K: "?K k st"
    obtain Ak c where st: "st = (Ak, c)" by (cases st)
    from K have c: "c = k" and len: "length Ak = R"
      and rl: "\<forall>r<R. length (Ak ! r) = 3 * n"
      and wr: "\<forall>i<k. \<forall>a<m. a \<noteq> aopt i \<longrightarrow>
           Ak ! (i * w + ?sk i a) = ?co i a @ replicate (2 * n) 0
         \<and> Ak ! (n * w + i * w + ?sk i a) = (?co i a @ replicate (2 * n) 0)[n + i := 1]"
      and zero: "\<forall>r<R. (k * w \<le> r \<and> r < n * w) \<or> n * w + k * w \<le> r \<longrightarrow> Ak ! r = ?Z"
      by (simp_all add: st)
    from H k have Hk: "k < length policy" "np_argmax (policy ! k) = Inr (aopt k)" "aopt k < m"
      "linalg_inv n (\<lambda>r c. (if r = c then 1 else 0) - gamma * entry tp r c (aopt k)) = Inr (tinv k)"
      by simp_all
    have kw: "k * w + w \<le> n * w" by (rule block_le[OF k])
    have fit: "k * w + w \<le> n * w + k * w" "n * w + k * w + w \<le> length Ak"
      using kw Rw len by linarith+
    have rl': "\<forall>r<length Ak. length (Ak ! r) = 3 * n" using rl len by simp
    from policy_rows_loop[OF tp Hk(3) k refl refl, of Ak "tinv k", folded w_def, OF fit rl']
    obtain A' where inner: "for_each [0..<m] (policy_constraint_rows tp (tinv k) k (aopt k)) (Ak, 0)
          = Inr (A', w)"
      and len': "length A' = length Ak"
      and rows': "\<forall>r<length Ak. length (A' ! r) = 3 * n"
      and new: "\<forall>a<m. a \<noteq> aopt k \<longrightarrow>
           A' ! (k * w + ?sk k a) = ?co k a @ drop n (Ak ! (k * w + ?sk k a))
         \<and> A' ! (n * w + k * w + ?sk k a)
             = (?co k a @ drop n (Ak ! (n * w + k * w + ?sk k a)))[n + k := 1]"
      and keep: "\<forall>r<length Ak. (r < k * w \<or> k * w + w \<le> r)
                   \<and> (r < n * w + k * w \<or> n * w + k * w + w \<le> r)
           \<longrightarrow> A' ! r = Ak ! r"
      by blast
    have step: "policy_constraints linalg_inv tp policy gamma k st = Inr (A', Suc k)"
      using Hk inner by (simp add: policy_constraints_def st c tp w_def)
    have wr': "\<forall>i<Suc k. \<forall>a<m. a \<noteq> aopt i \<longrightarrow>
           A' ! (i * w + ?sk i a) = ?co i a @ replicate (2 * n) 0
         \<and> A' ! (n * w + i * w + ?sk i a) = (?co i a @ replicate (2 * n) 0)[n + i := 1]"
    proof (intro allI impI)
      fix i a assume i: "i < Suc k" and a: "a < m" "a \<noteq> aopt i"
      show "A' ! (i * w + ?sk i a) = ?co i a @ replicate (2 * n) 0
         \<and> A' ! (n * w + i * w + ?sk i a) = (?co i a @ replicate (2 * n) 0)[n + i := 1]"
      proof (cases "i = k")
        case True
        have s: "?sk k a < w" unfolding w_def
          using a Hk(3) True by (intro skip_index_less) simp_all
        have z1: "Ak ! (k * w + ?sk k a) = ?Z" using zero s kw Rw by simp
        have z2: "Ak ! (n * w + k * w + ?sk k a) = ?Z" using zero s kw Rw by simp
        have d: "drop n ?Z = replicate (2 * n) 0" by simp
        show ?thesis using new a True by (simp add: z1 z2 d)
      next
        case False
        then have ik: "i < k" using i by simp
        have "i < n" using ik k by simp
        with H have "aopt i < m" by simp
        then have s: "?sk i a < w" unfolding w_def using a by (intro skip_index_less) simp_all
        have iw: "i * w + w \<le> k * w" by (rule block_le[OF ik])
        have "A' ! (i * w + ?sk i a) = Ak ! (i * w + ?sk i a)"
          using keep s iw kw Rw len by simp
        moreover have "A' ! (n * w + i * w + ?sk i a) = Ak ! (n * w + i * w + ?sk i a)"
          using keep s iw kw Rw len by simp
        ultimately show ?thesis using wr ik a by simp
      qed
    qed
    have zero': "\<forall>r<R. (Suc k * w \<le> r \<and> r < n * w) \<or> n * w + Suc k * w \<le> r \<longrightarrow> A' ! r = ?Z"
    proof (intro allI impI)
      fix r assume r: "r < R" and c: "(Suc k * w \<le> r \<and> r < n * w) \<or> n * w + Suc k * w \<le> r"
      then have "A' ! r = Ak ! r"
        using keep kw len by auto
      moreover have "Ak ! r = ?Z" using zero r c by auto
      ultimately show "A' ! r = ?Z" by simp
    qed
    show "\<exists>st'. policy_constraints linalg_inv tp policy gamma k st = Inr st' \<and> ?K (Suc k) st'"
      using step len' len rows' wr' zero' unfolding fst_conv snd_conv
      by (intro exI[of _ "(A', Suc k)"]) simp
  qed
  then obtain st where st: "for_each [0..<n] (policy_constraints linalg_inv tp policy gamma)
                 (replicate R ?Z, 0) = Inr st" and K: "?K n st" by blast
  obtain A' c where s: "st = (A', c)" by (cases st)
  from K have parts: "c = n" "length A' = R" "\<forall>r<R. length (A' ! r) = 3 * n"
    "\<forall>i<n. \<forall>a<m. a \<noteq> aopt i \<longrightarrow>
           A' ! (i * w + ?sk i a) = ?co i a @ replicate (2 * n) 0
         \<and> A' ! (n * w + i * w + ?sk i a) = (?co i a @ replicate (2 * n) 0)[n + i := 1]"
    "\<forall>r<R. (n * w \<le> r \<and> r < n * w) \<or> n * w + n * w \<le> r \<longrightarrow> A' ! r = ?Z"
    unfolding s fst_conv snd_conv by blast+
  have "\<forall>r<R. 2 * (n * (m - 1)) \<le> r \<longrightarrow> A' ! r = ?Z"
    using parts(5) by (simp add: w_def)
  then show ?thesis
    using st parts(1-4) unfolding s w_def by (intro exI[of _ A'] conjI) simp_all
qed

lemma row_pair_loop:
  fixes body :: "nat \<Rightarrow> real list list \<times> real list \<Rightarrow> error + real list list \<times> real list"
  assumes A: "length A = R" "\<forall>r<R. length (A ! r) = C" and b: "length b = R"
    and fit: "off + n \<le> R"
    and f: "\<And>i row. length (f i row) = length row"
    and body: "\<And>i A b. i < n \<Longrightarrow> length A = R \<Longrightarrow> (\<forall>r<R. length (A ! r) = C) \<Longrightarrow> length b = R
                 \<Longrightarrow> body i (A, b) = Inr (A[off + i := f i (A ! (off + i))], b[off + i := w])"
  shows "\<exists>A' b'. for_each [0..<n] body (A, b) = Inr (A', b')
     \<and> length A' = R \<and> (\<forall>r<R. length (A' ! r) = C) \<and> length b' = R
     \<and> (\<forall>i<n. A' ! (off + i) = f i (A ! (off + i)) \<and> b' ! (off + i) = w)
     \<and> (\<forall>r<R. r < off \<or> off + n \<le> r \<longrightarrow> A' ! r = A ! r \<and> b' ! r = b ! r)"
proof -
  let ?I = "\<lambda>k (st :: real list list \<times> real list).
     length (fst st) = R \<and> (\<forall>r<R. length (fst st ! r) = C) \<and> length (snd st) = R
     \<and> (\<forall>i<k. fst st ! (off + i) = f i (A ! (off + i)) \<and> snd st ! (off + i) = w)
     \<and> (\<forall>r<R. r < off \<or> off + k \<le> r \<longrightarrow> fst st ! r = A ! r \<and> snd st ! r = b ! r)"
  have "\<exists>st. for_each [0..<n] body (A, b) = Inr st \<and> ?I n st"
  proof (rule for_each_range_total[where I = ?I])
    show "?I 0 (A, b)" using A b by simp
  next
    fix k st
    assume k: "k < n" and I: "?I k st"
    obtain Ak bk where st: "st = (Ak, bk)" by (cases st)
    from I have len: "length Ak = R" and rl: "\<forall>r<R. length (Ak ! r) = C" and lb: "length bk = R"
      and wr: "\<forall>i<k. Ak ! (off + i) = f i (A ! (off + i)) \<and> bk ! (off + i) = w"
      and keep: "\<forall>r<R. r < off \<or> off + k \<le> r \<longrightarrow> Ak ! r = A ! r \<and> bk ! r = b ! r"
      by (simp_all add: st)
    let ?A' = "Ak[off + k := f k (Ak ! (off + k))]" and ?b' = "bk[off + k := w]"
    have step: "body k st = Inr (?A', ?b')" unfolding st by (rule body[OF k len rl lb])
    have in_range: "off + k < R" using k fit by simp
    have old: "Ak ! (off + k) = A ! (off + k)" using keep in_range by simp
    have rl': "\<forall>r<R. length (?A' ! r) = C"
    proof (intro allI impI)
      fix r assume "r < R"
      then show "length (?A' ! r) = C"
        using rl len in_range f by (cases "r = off + k") simp_all
    qed
    have wr': "\<forall>i<Suc k. ?A' ! (off + i) = f i (A ! (off + i)) \<and> ?b' ! (off + i) = w"
    proof (intro allI impI)
      fix i assume "i < Suc k"
      then show "?A' ! (off + i) = f i (A ! (off + i)) \<and> ?b' ! (off + i) = w"
        using wr old len lb in_range by (cases "i = k") simp_all
    qed
    have keep': "\<forall>r<R. r < off \<or> off + Suc k \<le> r \<longrightarrow> ?A' ! r = A ! r \<and> ?b' ! r = b ! r"
    proof (intro allI impI)
      fix r assume r: "r < R" and c: "r < off \<or> off + Suc k \<le> r"
      then have ne: "r \<noteq> off + k" and c': "r < off \<or> off + k \<le> r" by auto
      from keep r c' have "Ak ! r = A ! r \<and> bk ! r = b ! r" by blast
      then show "?A' ! r = A ! r \<and> ?b' ! r = b ! r" using ne by simp
    qed
    show "\<exists>st'. body k st = Inr st' \<and> ?I (Suc k) st'"
      using step len lb rl' wr' keep' unfolding fst_conv snd_conv
      by (intro exI[of _ "(?A', ?b')"]) simp
  qed
  then obtain st where st: "for_each [0..<n] body (A, b) = Inr st" and I: "?I n st" by blast
  obtain A' b' where s: "st = (A', b')" by (cases st)
  from I have "length A' = R" "\<forall>r<R. length (A' ! r) = C" "length b' = R"
    "\<forall>i<n. A' ! (off + i) = f i (A ! (off + i)) \<and> b' ! (off + i) = w"
    "\<forall>r<R. r < off \<or> off + n \<le> r \<longrightarrow> A' ! r = A ! r \<and> b' ! r = b ! r"
    unfolding s fst_conv snd_conv by blast+
  then show ?thesis using st unfolding s by (intro exI[of _ A'] exI[of _ b'] conjI)
qed

lemma row_loop:
  fixes body :: "nat \<Rightarrow> real list list \<Rightarrow> error + real list list"
  assumes A: "length A = R" "\<forall>r<R. length (A ! r) = C"
    and fit: "off + n \<le> R"
    and f: "\<And>i row. length (f i row) = length row"
    and body: "\<And>i A. i < n \<Longrightarrow> length A = R \<Longrightarrow> (\<forall>r<R. length (A ! r) = C)
                 \<Longrightarrow> body i A = Inr (A[off + i := f i (A ! (off + i))])"
  shows "\<exists>A'. for_each [0..<n] body A = Inr A'
     \<and> length A' = R \<and> (\<forall>r<R. length (A' ! r) = C)
     \<and> (\<forall>i<n. A' ! (off + i) = f i (A ! (off + i)))
     \<and> (\<forall>r<R. r < off \<or> off + n \<le> r \<longrightarrow> A' ! r = A ! r)"
proof -
  let ?I = "\<lambda>k (Ak :: real list list).
     length Ak = R \<and> (\<forall>r<R. length (Ak ! r) = C)
     \<and> (\<forall>i<k. Ak ! (off + i) = f i (A ! (off + i)))
     \<and> (\<forall>r<R. r < off \<or> off + k \<le> r \<longrightarrow> Ak ! r = A ! r)"
  have "\<exists>A'. for_each [0..<n] body A = Inr A' \<and> ?I n A'"
  proof (rule for_each_range_total[where I = ?I])
    show "?I 0 A" using A by simp
  next
    fix k Ak
    assume k: "k < n" and I: "?I k Ak"
    from I have len: "length Ak = R" and rl: "\<forall>r<R. length (Ak ! r) = C"
      and wr: "\<forall>i<k. Ak ! (off + i) = f i (A ! (off + i))"
      and keep: "\<forall>r<R. r < off \<or> off + k \<le> r \<longrightarrow> Ak ! r = A ! r"
      by simp_all
    let ?A' = "Ak[off + k := f k (Ak ! (off + k))]"
    have step: "body k Ak = Inr ?A'" by (rule body[OF k len rl])
    have in_range: "off + k < R" using k fit by simp
    have old: "Ak ! (off + k) = A ! (off + k)" using keep in_range by simp
    have rl': "\<forall>r<R. length (?A' ! r) = C"
    proof (intro allI impI)
      fix r assume "r < R"
      then show "length (?A' ! r) = C"
        using rl len in_range f by (cases "r = off + k") simp_all
    qed
    have wr': "\<forall>i<Suc k. ?A' ! (off + i) = f i (A ! (off + i))"
    proof (intro allI impI)
      fix i assume "i < Suc k"
      then show "?A' ! (off + i) = f i (A ! (off + i))"
        using wr old len in_range by (cases "i = k") simp_all
    qed
    have keep': "\<forall>r<R. r < off \<or> off + Suc k \<le> r \<longrightarrow> ?A' ! r = A ! r"
    proof (intro allI impI)
      fix r assume r: "r < R" and c: "r < off \<or> off + Suc k \<le> r"
      then have ne: "r \<noteq> off + k" and c': "r < off \<or> off + k \<le> r" by auto
      from keep r c' have "Ak ! r = A ! r" by blast
      then show "?A' ! r = A ! r" using ne by simp
    qed
    show "\<exists>A''. body k Ak = Inr A'' \<and> ?I (Suc k) A''"
      using step len rl' wr' keep' by (intro exI[of _ ?A']) simp
  qed
  then show ?thesis by blast
qed

lemma upper_bound_row_step:
  assumes "i < n" "length A = R" "\<forall>r<R. length (A ! r) = 3 * n" "length b = R" "base + n \<le> R"
  shows "upper_bound_row base n r_max i (A, b)
       = Inr (A[base + i := (A ! (base + i))[i := 1]], b[base + i := r_max])"
  using assms by (simp add: upper_bound_row_def set_item2_def set_item_def)

lemma lower_bound_row_step:
  assumes "i < n" "length A = R" "\<forall>r<R. length (A ! r) = 3 * n" "length b = R"
    "base + n + n \<le> R"
  shows "lower_bound_row base n i (A, b)
       = Inr (A[base + n + i := (A ! (base + n + i))[i := - 1]], b[base + n + i := 0])"
  using assms by (simp add: lower_bound_row_def set_item2_def set_item_def)

lemma slack_row_first_step:
  assumes "i < n" "length A = R" "\<forall>r<R. length (A ! r) = 3 * n" "base + 2 * n + n \<le> R"
  shows "slack_row_first base n i A
       = Inr (A[base + 2 * n + i := (A ! (base + 2 * n + i))[i := 1, 2 * n + i := - 1]])"
  using assms by (simp add: slack_row_first_def set_item2_def)

lemma slack_row_second_step:
  assumes "i < n" "length A = R" "\<forall>r<R. length (A ! r) = 3 * n" "base + 3 * n + n \<le> R"
  shows "slack_row_second base n i A
       = Inr (A[base + 3 * n + i := (A ! (base + 3 * n + i))[i := 1, 2 * n + i := - 1]])"
  using assms by (simp add: slack_row_second_def set_item2_def)

lemma objective_loop: "\<exists>c. for_each xs (objective n l1) c0 = Inr c"
  by (induction xs arbitrary: c0) (simp_all add: objective_def)

lemma rows_total: "1 \<le> m \<or> n = 0 \<Longrightarrow> 2 * n * (m + 1) = 2 * n * (m - 1) + 4 * (n::nat)"
  by (cases m) (auto simp: algebra_simps)

lemma for_each_success:
  "for_each xs body s = Inr s' \<Longrightarrow> \<forall>i\<in>set xs. \<exists>t t'. body i t = Inr t'"
proof (induction xs arbitrary: s)
  case Nil
  then show ?case by simp
next
  case (Cons x xs)
  then obtain s1 where s1: "body x s = Inr s1" "for_each xs body s1 = Inr s'"
    by (auto split: sum.splits)
  from Cons.IH[OF s1(2)] s1(1) show ?case by auto
qed

lemma policy_constraints_success:
  assumes "policy_constraints linalg_inv tp policy gamma i st = Inr st'"
  shows "\<exists>a_opt tmp_inv. i < length policy \<and> np_argmax (policy ! i) = Inr a_opt
           \<and> a_opt < shape2 tp
           \<and> linalg_inv (shape0 tp)
                (\<lambda>r c. (if r = c then 1 else 0) - gamma * entry tp r c a_opt) = Inr tmp_inv"
  using assms
  by (cases st) (auto simp: policy_constraints_def split: if_splits sum.splits)

lemma linear_irl_lp_total:
  assumes tp: "shape0 tp = n" "shape2 tp = m"
    and H: "\<forall>i<n. i < length policy \<and> np_argmax (policy ! i) = Inr (aopt i) \<and> aopt i < m
              \<and> linalg_inv n (\<lambda>r c. (if r = c then 1 else 0) - gamma * entry tp r c (aopt i))
                  = Inr (tinv i)"
  shows "\<exists>c A b. linear_irl_lp linalg_inv tp policy gamma l1 r_max = Inr ((c, A, b), n)
     \<and> length A = 2 * n * (m - 1) + 4 * n \<and> length b = 2 * n * (m - 1) + 4 * n
     \<and> (\<forall>i<n. \<forall>a<m. a \<noteq> aopt i \<longrightarrow>
           A ! (i * (m - 1) + skip_index (aopt i) a)
             = constraint_coeffs tp (tinv i) i (aopt i) a @ replicate (2 * n) 0
         \<and> A ! (n * (m - 1) + i * (m - 1) + skip_index (aopt i) a)
             = (constraint_coeffs tp (tinv i) i (aopt i) a @ replicate (2 * n) 0)[n + i := 1])
     \<and> (\<forall>r<2 * n * (m - 1). b ! r = 0)
     \<and> (\<forall>i<n. A ! (2 * n * (m - 1) + i) = (replicate (3 * n) 0)[i := 1]
             \<and> b ! (2 * n * (m - 1) + i) = r_max
             \<and> A ! (2 * n * (m - 1) + n + i) = (replicate (3 * n) 0)[i := - 1]
             \<and> b ! (2 * n * (m - 1) + n + i) = 0
             \<and> A ! (2 * n * (m - 1) + 2 * n + i) = (replicate (3 * n) 0)[i := 1, 2 * n + i := - 1]
             \<and> b ! (2 * n * (m - 1) + 2 * n + i) = 0
             \<and> A ! (2 * n * (m - 1) + 3 * n + i) = (replicate (3 * n) 0)[i := 1, 2 * n + i := - 1]
             \<and> b ! (2 * n * (m - 1) + 3 * n + i) = 0)"
proof -
  let ?B = "2 * n * (m - 1)"
  let ?R = "?B + 4 * n"
  let ?Z = "replicate (3 * n) (0::real)"
  have m1: "1 \<le> m \<or> n = 0"
  proof (cases "n = 0")
    case False
    then have "aopt 0 < m" using H by simp
    then show ?thesis by simp
  qed simp
  have R: "2 * n * (m + 1) = ?R" by (rule rows_total[OF m1])
  have Rle: "2 * (n * (m - 1)) \<le> ?R" by simp
  from policy_constraints_loop[where aopt = aopt and tinv = tinv and linalg_inv = linalg_inv
      and gamma = gamma and policy = policy, OF tp H Rle]
  obtain A1 where p1: "for_each [0..<n] (policy_constraints linalg_inv tp policy gamma)
                 (replicate ?R ?Z, 0) = Inr (A1, n)"
    and l1: "length A1 = ?R" and r1: "\<forall>r<?R. length (A1 ! r) = 3 * n"
    and w1: "\<forall>i<n. \<forall>a<m. a \<noteq> aopt i \<longrightarrow>
           A1 ! (i * (m - 1) + skip_index (aopt i) a)
             = constraint_coeffs tp (tinv i) i (aopt i) a @ replicate (2 * n) 0
         \<and> A1 ! (n * (m - 1) + i * (m - 1) + skip_index (aopt i) a)
             = (constraint_coeffs tp (tinv i) i (aopt i) a @ replicate (2 * n) 0)[n + i := 1]"
    and z1: "\<forall>r<?R. 2 * (n * (m - 1)) \<le> r \<longrightarrow> A1 ! r = ?Z"
    by blast
  have lb0: "length (replicate ?R (0::real)) = ?R" by simp
  from row_pair_loop[where body = "upper_bound_row ?B n r_max" and off = ?B and n = n
      and f = "\<lambda>i row. row[i := 1]" and w = r_max, OF l1 r1 lb0]
  obtain A2 b2 where p2: "for_each [0..<n] (upper_bound_row ?B n r_max) (A1, replicate ?R 0)
        = Inr (A2, b2)"
    and l2: "length A2 = ?R" and r2: "\<forall>r<?R. length (A2 ! r) = 3 * n" and lb2: "length b2 = ?R"
    and w2: "\<forall>i<n. A2 ! (?B + i) = (A1 ! (?B + i))[i := 1] \<and> b2 ! (?B + i) = r_max"
    and k2: "\<forall>r<?R. r < ?B \<or> ?B + n \<le> r \<longrightarrow> A2 ! r = A1 ! r \<and> b2 ! r = replicate ?R 0 ! r"
    using upper_bound_row_step[where base = ?B and n = n and R = ?R] by force
  from row_pair_loop[where body = "lower_bound_row ?B n" and off = "?B + n" and n = n
      and f = "\<lambda>i row. row[i := - 1]" and w = 0, OF l2 r2 lb2]
  obtain A3 b3 where p3: "for_each [0..<n] (lower_bound_row ?B n) (A2, b2) = Inr (A3, b3)"
    and l3: "length A3 = ?R" and r3: "\<forall>r<?R. length (A3 ! r) = 3 * n" and lb3: "length b3 = ?R"
    and w3: "\<forall>i<n. A3 ! (?B + n + i) = (A2 ! (?B + n + i))[i := - 1] \<and> b3 ! (?B + n + i) = 0"
    and k3: "\<forall>r<?R. r < ?B + n \<or> ?B + n + n \<le> r \<longrightarrow> A3 ! r = A2 ! r \<and> b3 ! r = b2 ! r"
    using lower_bound_row_step[where base = ?B and n = n and R = ?R] by force
  from row_loop[where body = "slack_row_first ?B n" and off = "?B + 2 * n" and n = n
      and f = "\<lambda>i row. row[i := 1, 2 * n + i := - 1]", OF l3 r3]
  obtain A4 where p4: "for_each [0..<n] (slack_row_first ?B n) A3 = Inr A4"
    and l4: "length A4 = ?R" and r4: "\<forall>r<?R. length (A4 ! r) = 3 * n"
    and w4: "\<forall>i<n. A4 ! (?B + 2 * n + i) = (A3 ! (?B + 2 * n + i))[i := 1, 2 * n + i := - 1]"
    and k4: "\<forall>r<?R. r < ?B + 2 * n \<or> ?B + 2 * n + n \<le> r \<longrightarrow> A4 ! r = A3 ! r"
    using slack_row_first_step[where base = ?B and n = n and R = ?R] by force
  from row_loop[where body = "slack_row_second ?B n" and off = "?B + 3 * n" and n = n
      and f = "\<lambda>i row. row[i := 1, 2 * n + i := - 1]", OF l4 r4]
  obtain A5 where p5: "for_each [0..<n] (slack_row_second ?B n) A4 = Inr A5"
    and l5: "length A5 = ?R" and r5: "\<forall>r<?R. length (A5 ! r) = 3 * n"
    and w5: "\<forall>i<n. A5 ! (?B + 3 * n + i) = (A4 ! (?B + 3 * n + i))[i := 1, 2 * n + i := - 1]"
    and k5: "\<forall>r<?R. r < ?B + 3 * n \<or> ?B + 3 * n + n \<le> r \<longrightarrow> A5 ! r = A4 ! r"
    using slack_row_second_step[where base = ?B and n = n and R = ?R] by force
  obtain c where p6: "for_each [0..<n] (objective n l1) (replicate (3 * n) 0) = Inr c"
    using objective_loop by blast
  have lp: "linear_irl_lp linalg_inv tp policy gamma l1 r_max = Inr ((c, A5, b3), n)"
    unfolding linear_irl_lp_def Let_def tp R p1 sum.case prod.case p2 p3 p4 p5 p6 ..
  have B2: "?B = n * (m - 1) + n * (m - 1)" by simp
  have zero: "A1 ! (?B + j) = ?Z" if "j < 4 * n" for j
    using z1[rule_format, of "?B + j"] that by simp
  have low: "A5 ! r = A1 ! r \<and> b3 ! r = 0" if "r < ?B" for r
  proof -
    have rR: "r < ?R" using that by simp
    have "A5 ! r = A4 ! r" using k5[rule_format, OF rR] that by simp
    also have "A4 ! r = A3 ! r" using k4[rule_format, OF rR] that by simp
    also have "A3 ! r = A2 ! r" using k3[rule_format, OF rR] that by simp
    also have "A2 ! r = A1 ! r" using k2[rule_format, OF rR] that by simp
    finally have a: "A5 ! r = A1 ! r" .
    have "b3 ! r = b2 ! r" using k3[rule_format, OF rR] that by simp
    also have "b2 ! r = replicate ?R 0 ! r" using k2[rule_format, OF rR] that by simp
    also have "\<dots> = 0" using rR by simp
    finally show ?thesis using a by simp
  qed
  have pol: "\<forall>i<n. \<forall>a<m. a \<noteq> aopt i \<longrightarrow>
           A5 ! (i * (m - 1) + skip_index (aopt i) a)
             = constraint_coeffs tp (tinv i) i (aopt i) a @ replicate (2 * n) 0
         \<and> A5 ! (n * (m - 1) + i * (m - 1) + skip_index (aopt i) a)
             = (constraint_coeffs tp (tinv i) i (aopt i) a @ replicate (2 * n) 0)[n + i := 1]"
  proof (intro allI impI)
    fix i a assume i: "i < n" and a: "a < m" "a \<noteq> aopt i"
    have "aopt i < m" using H i by simp
    then have s: "skip_index (aopt i) a < m - 1" using a by (intro skip_index_less) simp_all
    have bl: "i * (m - 1) + (m - 1) \<le> n * (m - 1)" by (rule block_le[OF i])
    have "i * (m - 1) + skip_index (aopt i) a < ?B"
      "n * (m - 1) + i * (m - 1) + skip_index (aopt i) a < ?B"
      unfolding B2 using s bl by linarith+
    then show "A5 ! (i * (m - 1) + skip_index (aopt i) a)
             = constraint_coeffs tp (tinv i) i (aopt i) a @ replicate (2 * n) 0
         \<and> A5 ! (n * (m - 1) + i * (m - 1) + skip_index (aopt i) a)
             = (constraint_coeffs tp (tinv i) i (aopt i) a @ replicate (2 * n) 0)[n + i := 1]"
      using low w1[rule_format, OF i a] by simp
  qed
  have bnd: "\<forall>i<n. A5 ! (?B + i) = ?Z[i := 1]
             \<and> b3 ! (?B + i) = r_max
             \<and> A5 ! (?B + n + i) = ?Z[i := - 1]
             \<and> b3 ! (?B + n + i) = 0
             \<and> A5 ! (?B + 2 * n + i) = ?Z[i := 1, 2 * n + i := - 1]
             \<and> b3 ! (?B + 2 * n + i) = 0
             \<and> A5 ! (?B + 3 * n + i) = ?Z[i := 1, 2 * n + i := - 1]
             \<and> b3 ! (?B + 3 * n + i) = 0"
  proof (intro allI impI)
    fix i assume i: "i < n"
    have q0: "?B + i < ?R" and q1: "?B + n + i < ?R" and q2: "?B + 2 * n + i < ?R"
      and q3: "?B + 3 * n + i < ?R" using i by simp_all
    have a0: "A5 ! (?B + i) = ?Z[i := 1]"
    proof -
      have "A5 ! (?B + i) = A4 ! (?B + i)" using k5[rule_format, OF q0] i by simp
      also have "\<dots> = A3 ! (?B + i)" using k4[rule_format, OF q0] i by simp
      also have "\<dots> = A2 ! (?B + i)" using k3[rule_format, OF q0] i by simp
      also have "\<dots> = (A1 ! (?B + i))[i := 1]" using w2[rule_format, OF i] by simp
      also have "A1 ! (?B + i) = ?Z" using zero[of i] i by simp
      finally show ?thesis .
    qed
    have b0: "b3 ! (?B + i) = r_max"
      using k3[rule_format, OF q0] w2[rule_format, OF i] i by simp
    have a1: "A5 ! (?B + n + i) = ?Z[i := - 1]"
    proof -
      have "A5 ! (?B + n + i) = A4 ! (?B + n + i)" using k5[rule_format, OF q1] i by simp
      also have "\<dots> = A3 ! (?B + n + i)" using k4[rule_format, OF q1] i by simp
      also have "\<dots> = (A2 ! (?B + n + i))[i := - 1]" using w3[rule_format, OF i] by simp
      also have "A2 ! (?B + n + i) = A1 ! (?B + n + i)" using k2[rule_format, OF q1] by simp
      also have "A1 ! (?B + n + i) = ?Z" using zero[of "n + i"] i by (simp add: add.assoc)
      finally show ?thesis .
    qed
    have b1: "b3 ! (?B + n + i) = 0" using w3[rule_format, OF i] by simp
    have a2: "A5 ! (?B + 2 * n + i) = ?Z[i := 1, 2 * n + i := - 1]"
    proof -
      have "A5 ! (?B + 2 * n + i) = A4 ! (?B + 2 * n + i)" using k5[rule_format, OF q2] i by simp
      also have "\<dots> = (A3 ! (?B + 2 * n + i))[i := 1, 2 * n + i := - 1]"
        using w4[rule_format, OF i] by simp
      also have "A3 ! (?B + 2 * n + i) = A2 ! (?B + 2 * n + i)"
        using k3[rule_format, OF q2] by simp
      also have "A2 ! (?B + 2 * n + i) = A1 ! (?B + 2 * n + i)"
        using k2[rule_format, OF q2] by simp
      also have "A1 ! (?B + 2 * n + i) = ?Z" using zero[of "2 * n + i"] i by (simp add: add.assoc)
      finally show ?thesis .
    qed
    have b2': "b3 ! (?B + 2 * n + i) = 0"
    proof -
      have "b3 ! (?B + 2 * n + i) = b2 ! (?B + 2 * n + i)" using k3[rule_format, OF q2] by simp
      also have "\<dots> = replicate ?R 0 ! (?B + 2 * n + i)" using k2[rule_format, OF q2] by simp
      also have "\<dots> = 0" using q2 by simp
      finally show ?thesis .
    qed
    have a3: "A5 ! (?B + 3 * n + i) = ?Z[i := 1, 2 * n + i := - 1]"
    proof -
      have "A5 ! (?B + 3 * n + i) = (A4 ! (?B + 3 * n + i))[i := 1, 2 * n + i := - 1]"
        using w5[rule_format, OF i] by simp
      also have "A4 ! (?B + 3 * n + i) = A3 ! (?B + 3 * n + i)"
        using k4[rule_format, OF q3] by simp
      also have "A3 ! (?B + 3 * n + i) = A2 ! (?B + 3 * n + i)"
        using k3[rule_format, OF q3] by simp
      also have "A2 ! (?B + 3 * n + i) = A1 ! (?B + 3 * n + i)"
        using k2[rule_format, OF q3] by simp
      also have "A1 ! (?B + 3 * n + i) = ?Z" using zero[of "3 * n + i"] i by (simp add: add.assoc)
      finally show ?thesis .
    qed
    have b3': "b3 ! (?B + 3 * n + i) = 0"
    proof -
      have "b3 ! (?B + 3 * n + i) = b2 ! (?B + 3 * n + i)" using k3[rule_format, OF q3] by simp
      also have "\<dots> = replicate ?R 0 ! (?B + 3 * n + i)" using k2[rule_format, OF q3] by simp
      also have "\<dots> = 0" using q3 by simp
      finally show ?thesis .
    qed
    show "A5 ! (?B + i) = ?Z[i := 1]
             \<and> b3 ! (?B + i) = r_max
             \<and> A5 ! (?B + n + i) = ?Z[i := - 1]
             \<and> b3 ! (?B + n + i) = 0
             \<and> A5 ! (?B + 2 * n + i) = ?Z[i := 1, 2 * n + i := - 1]
             \<and> b3 ! (?B + 2 * n + i) = 0
             \<and> A5 ! (?B + 3 * n + i) = ?Z[i := 1, 2 * n + i := - 1]
             \<and> b3 ! (?B + 3 * n + i) = 0"
      by (intro conjI a0 b0 a1 b1 a2 b2' a3 b3')
  qed
  have lowb: "\<forall>r<?B. b3 ! r = 0" using low by simp
  show ?thesis
    by (intro exI[of _ c] exI[of _ A5] exI[of _ b3] conjI lp l5 lb3 pol lowb bnd)
qed

lemma linear_irl_lp_rows:
  assumes tp: "shape0 tp = n" "shape2 tp = m"
    and lp: "linear_irl_lp linalg_inv tp policy gamma l1 r_max = Inr ((c, A, b), calls)"
  shows "\<exists>aopt tinv.
       (\<forall>i<n. i < length policy \<and> np_argmax (policy ! i) = Inr (aopt i) \<and> aopt i < m
              \<and> linalg_inv n (\<lambda>r c. (if r = c then 1 else 0) - gamma * entry tp r c (aopt i))
                  = Inr (tinv i))
     \<and> calls = n
     \<and> length A = 2 * n * (m - 1) + 4 * n \<and> length b = 2 * n * (m - 1) + 4 * n
     \<and> (\<forall>i<n. \<forall>a<m. a \<noteq> aopt i \<longrightarrow>
           A ! (i * (m - 1) + skip_index (aopt i) a)
             = constraint_coeffs tp (tinv i) i (aopt i) a @ replicate (2 * n) 0
         \<and> A ! (n * (m - 1) + i * (m - 1) + skip_index (aopt i) a)
             = (constraint_coeffs tp (tinv i) i (aopt i) a @ replicate (2 * n) 0)[n + i := 1])
     \<and> (\<forall>r<2 * n * (m - 1). b ! r = 0)
     \<and> (\<forall>i<n. A ! (2 * n * (m - 1) + i) = (replicate (3 * n) 0)[i := 1]
             \<and> b ! (2 * n * (m - 1) + i) = r_max
             \<and> A ! (2 * n * (m - 1) + n + i) = (replicate (3 * n) 0)[i := - 1]
             \<and> b ! (2 * n * (m - 1) + n + i) = 0
             \<and> A ! (2 * n * (m - 1) + 2 * n + i) = (replicate (3 * n) 0)[i := 1, 2 * n + i := - 1]
             \<and> b ! (2 * n * (m - 1) + 2 * n + i) = 0
             \<and> A ! (2 * n * (m - 1) + 3 * n + i) = (replicate (3 * n) 0)[i := 1, 2 * n + i := - 1]
             \<and> b ! (2 * n * (m - 1) + 3 * n + i) = 0)"
proof -
  from lp obtain st where
    "for_each [0..<n] (policy_constraints linalg_inv tp policy gamma)
       (replicate (2 * n * (m + 1)) (replicate (3 * n) 0), 0) = Inr st"
    unfolding linear_irl_lp_def Let_def tp by (auto split: sum.splits)
  from for_each_success[OF this]
  have "\<forall>i<n. \<exists>t t'. policy_constraints linalg_inv tp policy gamma i t = Inr t'" by simp
  then have "\<forall>i. \<exists>a_opt tmp_inv. i < n \<longrightarrow> i < length policy
           \<and> np_argmax (policy ! i) = Inr a_opt \<and> a_opt < m
           \<and> linalg_inv n (\<lambda>r c. (if r = c then 1 else 0) - gamma * entry tp r c a_opt)
               = Inr tmp_inv"
    using policy_constraints_success[of linalg_inv tp policy gamma] unfolding tp by blast
  then have "\<exists>aopt. \<forall>i. \<exists>tmp_inv. i < n \<longrightarrow> i < length policy
           \<and> np_argmax (policy ! i) = Inr (aopt i) \<and> aopt i < m
           \<and> linalg_inv n (\<lambda>r c. (if r = c then 1 else 0) - gamma * entry tp r c (aopt i))
               = Inr tmp_inv"
    by (rule choice)
  then obtain aopt where "\<forall>i. \<exists>tmp_inv. i < n \<longrightarrow> i < length policy
           \<and> np_argmax (policy ! i) = Inr (aopt i) \<and> aopt i < m
           \<and> linalg_inv n (\<lambda>r c. (if r = c then 1 else 0) - gamma * entry tp r c (aopt i))
               = Inr tmp_inv" ..
  then have "\<exists>tinv. \<forall>i. i < n \<longrightarrow> i < length policy
           \<and> np_argmax (policy ! i) = Inr (aopt i) \<and> aopt i < m
           \<and> linalg_inv n (\<lambda>r c. (if r = c then 1 else 0) - gamma * entry tp r c (aopt i))
               = Inr (tinv i)"
    by (rule choice)
  then obtain tinv where
    H: "\<forall>i<n. i < length policy \<and> np_argmax (policy ! i) = Inr (aopt i) \<and> aopt i < m
              \<and> linalg_inv n (\<lambda>r c. (if r = c then 1 else 0) - gamma * entry tp r c (aopt i))
                  = Inr (tinv i)" ..
  let ?Q = "\<lambda>(A :: real list list) (b :: real list).
       length A = 2 * n * (m - 1) + 4 * n \<and> length b = 2 * n * (m - 1) + 4 * n
     \<and> (\<forall>i<n. \<forall>a<m. a \<noteq> aopt i \<longrightarrow>
           A ! (i * (m - 1) + skip_index (aopt i) a)
             = constraint_coeffs tp (tinv i) i (aopt i) a @ replicate (2 * n) 0
         \<and> A ! (n * (m - 1) + i * (m - 1) + skip_index (aopt i) a)
             = (constraint_coeffs tp (tinv i) i (aopt i) a @ replicate (2 * n) 0)[n + i := 1])
     \<and> (\<forall>r<2 * n * (m - 1). b ! r = 0)
     \<and> (\<forall>i<n. A ! (2 * n * (m - 1) + i) = (replicate (3 * n) 0)[i := 1]
             \<and> b ! (2 * n * (m - 1) + i) = r_max
             \<and> A ! (2 * n * (m - 1) + n + i) = (replicate (3 * n) 0)[i := - 1]
             \<and> b ! (2 * n * (m - 1) + n + i) = 0
             \<and> A ! (2 * n * (m - 1) + 2 * n + i) = (replicate (3 * n) 0)[i := 1, 2 * n + i := - 1]
             \<and> b ! (2 * n * (m - 1) + 2 * n + i) = 0
             \<and> A ! (2 * n * (m - 1) + 3 * n + i) = (replicate (3 * n) 0)[i := 1, 2 * n + i := - 1]
             \<and> b ! (2 * n * (m - 1) + 3 * n + i) = 0)"
  have "\<exists>c' A' b'. linear_irl_lp linalg_inv tp policy gamma l1 r_max = Inr ((c', A', b'), n)
          \<and> ?Q A' b'"
    by (rule linear_irl_lp_total[where aopt = aopt and tinv = tinv and linalg_inv = linalg_inv
      and gamma = gamma and policy = policy and ?l1.0 = l1 and r_max = r_max, OF tp H])
  then obtain c' where "\<exists>A' b'. linear_irl_lp linalg_inv tp policy gamma l1 r_max
      = Inr ((c', A', b'), n) \<and> ?Q A' b'" ..
  then obtain A' where "\<exists>b'. linear_irl_lp linalg_inv tp policy gamma l1 r_max
      = Inr ((c', A', b'), n) \<and> ?Q A' b'" ..
  then obtain b' where tq: "linear_irl_lp linalg_inv tp policy gamma l1 r_max
      = Inr ((c', A', b'), n) \<and> ?Q A' b'" ..
  from tq lp have eq: "A' = A" "b' = b" "calls = n" by simp_all
  from tq have Q: "?Q A b" unfolding eq by (rule conjunct2)
  have "(\<forall>i<n. i < length policy \<and> np_argmax (policy ! i) = Inr (aopt i) \<and> aopt i < m
              \<and> linalg_inv n (\<lambda>r c. (if r = c then 1 else 0) - gamma * entry tp r c (aopt i))
                  = Inr (tinv i))
     \<and> calls = n \<and> ?Q A b"
    by (intro conjI H eq(3) Q)
  then show ?thesis by (intro exI[of _ aopt] exI[of _ tinv])
qed

lemma row_dot_sum: "row_dot row x = (\<Sum>j<length row. row ! j * x ! j)"
  by (simp add: row_dot_def interv_sum_list_conv_sum_set_nat atLeast0LessThan)

lemma row_dot_padded:
  "row_dot (u @ replicate k 0) x = (\<Sum>j<length u. u ! j * x ! j)"
proof -
  have "(\<Sum>j<length u + k. (u @ replicate k 0) ! j * x ! j)
      = (\<Sum>j<length u. (u @ replicate k 0) ! j * x ! j)"
    by (rule sum.mono_neutral_right) (auto simp: nth_append)
  also have "\<dots> = (\<Sum>j<length u. u ! j * x ! j)"
    by (rule sum.cong) (auto simp: nth_append)
  finally show ?thesis by (simp add: row_dot_sum)
qed

lemma row_dot_update:
  assumes "p < length row"
  shows "row_dot (row[p := v]) x = row_dot row x - row ! p * x ! p + v * x ! p"
proof -
  let ?S = "{..<length row}"
  have p: "p \<in> ?S" "finite ?S" using assms by simp_all
  have "(\<Sum>j\<in>?S. row[p := v] ! j * x ! j)
      = row[p := v] ! p * x ! p + (\<Sum>j\<in>?S - {p}. row[p := v] ! j * x ! j)"
    by (rule sum.remove[OF p(2,1)])
  also have "(\<Sum>j\<in>?S - {p}. row[p := v] ! j * x ! j) = (\<Sum>j\<in>?S - {p}. row ! j * x ! j)"
    by (rule sum.cong) auto
  also have "row[p := v] ! p = v" using assms by simp
  finally have a: "(\<Sum>j\<in>?S. row[p := v] ! j * x ! j)
      = v * x ! p + (\<Sum>j\<in>?S - {p}. row ! j * x ! j)" .
  have "(\<Sum>j\<in>?S. row ! j * x ! j) = row ! p * x ! p + (\<Sum>j\<in>?S - {p}. row ! j * x ! j)"
    by (rule sum.remove[OF p(2,1)])
  with a show ?thesis by (simp add: row_dot_sum)
qed

lemma sum_uminus_coeffs:
  "(\<Sum>j<length q. map uminus q ! j * x ! j) = - (\<Sum>j<length q. q ! j * (x ! j :: real))"
proof -
  have "(\<Sum>j<length q. map uminus q ! j * x ! j) = (\<Sum>j<length q. - (q ! j * x ! j))"
    by (rule sum.cong) auto
  then show ?thesis by (simp add: sum_negf)
qed

end
